theory Spec2Isabelle
  imports Complex_Main "HOL-Library.Word" "HOL-Library.AList"
begin

section \<open>The brick map of the voxel engine (src/showcase.js, class BrickMapWorld)\<close>

text \<open>
  JavaScript numbers that hold sizes, coordinates, indices and counters are modelled as
  \<open>int\<close> (every value the class computes from integer arguments is an exact integer).
  A \<open>Uint32Array\<close> is a list of \<open>32 word\<close>, a \<open>Uint8Array\<close> a list of \<open>8 word\<close>:
  storing a number into an element reduces it modulo \<open>2 ^ 32\<close> or \<open>2 ^ 8\<close>
  (\<open>word_of_int\<close>), reading gives the number back (\<open>uint\<close>).
  JavaScript's \<open>undefined\<close> and \<open>null\<close> are \<open>None\<close>.
\<close>

subsection \<open>Typed arrays\<close>

text \<open>Reading a typed array outside its length gives \<open>undefined\<close>.\<close>

definition ta_get :: "'a list \<Rightarrow> int \<Rightarrow> 'a option" where
  "ta_get xs i = (if 0 \<le> i \<and> i < int (length xs) then Some (xs ! nat i) else None)"

text \<open>Writing a typed array outside its length does nothing: the array never grows.\<close>

definition ta_set :: "'a list \<Rightarrow> int \<Rightarrow> 'a \<Rightarrow> 'a list" where
  "ta_set xs i v = (if 0 \<le> i \<and> i < int (length xs) then xs[nat i := v] else xs)"

text \<open>\<open>new Uint8Array(n)\<close> and \<open>new Uint32Array(n)\<close>: \<open>n\<close> zeros.\<close>

definition ta_new :: "int \<Rightarrow> ('a::zero) list" where
  "ta_new n = replicate (nat n) 0"

text \<open>
  The remainder operator \<open>%\<close> of JavaScript on integers: the result has the sign of the
  dividend.
\<close>

definition js_rem :: "int \<Rightarrow> int \<Rightarrow> int" where
  "js_rem x m = sgn x * (\<bar>x\<bar> mod \<bar>m\<bar>)"

text \<open>
  \<open>Math.floor(x / m)\<close> on integers with \<open>m \<noteq> 0\<close> is the quotient rounded towards minus
  infinity, which is \<open>div\<close> on \<open>int\<close>.
\<close>

definition js_floor_div :: "int \<Rightarrow> int \<Rightarrow> int" where
  "js_floor_div x m = x div m"

subsection \<open>The state of a BrickMapWorld\<close>

text \<open>
  \<open>bricks\<close> is the \<open>Map\<close> from brick index to the brick's \<open>Uint8Array\<close>, kept as an
  association list in insertion order, the order in which a JavaScript \<open>Map\<close> is
  iterated. Each array is referenced by its entry of the \<open>Map\<close> only, so the key stands
  for the reference.
\<close>

record BrickMapWorld =
  coarseSize :: int
  brickSize :: int
  worldSize :: int
  coarseGrid :: "32 word list"
  bricks :: "(int \<times> 8 word list) list"
  nextBrickIndex :: int
  atlasSize :: int
  brickAtlasData :: "8 word list option"
  voxelCount :: int
  brickCount :: int

text \<open>A voxel record as \<open>getVoxel\<close> returns it; a channel read outside the brick's array
  would be \<open>undefined\<close>.\<close>

record voxel =
  red :: "int option"
  green :: "int option"
  blue :: "int option"
  alpha :: "int option"

text \<open>The constructor. \<open>new Uint32Array(n)\<close> throws a RangeError for a negative
  length: \<open>None\<close>.\<close>

definition new_BrickMapWorld :: "int \<Rightarrow> int \<Rightarrow> BrickMapWorld option" where
  "new_BrickMapWorld cs bs =
     (if cs * cs * cs < 0 then None
      else Some \<lparr> coarseSize = cs, brickSize = bs, worldSize = cs * bs,
                  coarseGrid = ta_new (cs * cs * cs), bricks = [], nextBrickIndex = 1,
                  atlasSize = 64, brickAtlasData = None, voxelCount = 0, brickCount = 0 \<rparr>)"

definition getCoarseIndex :: "BrickMapWorld \<Rightarrow> int \<Rightarrow> int \<Rightarrow> int \<Rightarrow> int" where
  "getCoarseIndex w cx cy cz =
     (if cx < 0 \<or> cx \<ge> coarseSize w \<or> cy < 0 \<or> cy \<ge> coarseSize w \<or>
         cz < 0 \<or> cz \<ge> coarseSize w
      then - 1
      else cx + cy * coarseSize w + cz * coarseSize w * coarseSize w)"

definition worldToCoarse :: "BrickMapWorld \<Rightarrow> int \<Rightarrow> int \<Rightarrow> int \<Rightarrow> int \<times> int \<times> int" where
  "worldToCoarse w x y z =
     (js_floor_div x (brickSize w), js_floor_div y (brickSize w), js_floor_div z (brickSize w))"

definition worldToLocal :: "BrickMapWorld \<Rightarrow> int \<Rightarrow> int \<Rightarrow> int \<Rightarrow> int \<times> int \<times> int" where
  "worldToLocal w x y z =
     (js_rem x (brickSize w), js_rem y (brickSize w), js_rem z (brickSize w))"

definition getBrickLocalIndex :: "BrickMapWorld \<Rightarrow> int \<Rightarrow> int \<Rightarrow> int \<Rightarrow> int" where
  "getBrickLocalIndex w lx ly lz =
     (lx + ly * brickSize w + lz * brickSize w * brickSize w) * 4"

text \<open>
  \<open>_getOrCreateBrick\<close> returns the brick's array, here the entry of \<open>bricks\<close> that holds
  it (key and contents), or \<open>null\<close>, together with the updated world. A coarse-grid read
  out of range gives \<open>undefined\<close>, which is not \<open>=== 0\<close>, and the \<open>Map\<close> has no entry for
  it.
\<close>

definition getOrCreateBrick ::
  "BrickMapWorld \<Rightarrow> int \<Rightarrow> int \<Rightarrow> int \<Rightarrow> (int \<times> 8 word list) option \<times> BrickMapWorld" where
  "getOrCreateBrick w cx cy cz =
     (let coarseIdx = getCoarseIndex w cx cy cz in
      if coarseIdx < 0 then (None, w)
      else case ta_get (coarseGrid w) coarseIdx of
        None \<Rightarrow> (None, w)
      | Some cell \<Rightarrow>
          if uint cell = 0 then
            (let brickIndex = nextBrickIndex w;
                 brickData = ta_new (brickSize w * brickSize w * brickSize w * 4);
                 w' = w \<lparr> nextBrickIndex := nextBrickIndex w + 1,
                         coarseGrid := ta_set (coarseGrid w) coarseIdx (word_of_int brickIndex),
                         bricks := AList.update brickIndex brickData (bricks w),
                         brickCount := brickCount w + 1 \<rparr>
             in (map_option (Pair brickIndex) (map_of (bricks w') brickIndex), w'))
          else (map_option (Pair (uint cell)) (map_of (bricks w) (uint cell)), w))"

text \<open>\<open>setVoxel\<close>: the returned boolean and the world after the call.\<close>

definition setVoxel ::
  "BrickMapWorld \<Rightarrow> int \<Rightarrow> int \<Rightarrow> int \<Rightarrow> int \<Rightarrow> int \<Rightarrow> int \<Rightarrow> int \<Rightarrow> bool \<times> BrickMapWorld" where
  "setVoxel w x y z r g b a =
     (if x < 0 \<or> x \<ge> worldSize w \<or> y < 0 \<or> y \<ge> worldSize w \<or> z < 0 \<or> z \<ge> worldSize w
      then (False, w)
      else
        (let (cx, cy, cz) = worldToCoarse w x y z;
             (lx, ly, lz) = worldToLocal w x y z
         in case getOrCreateBrick w cx cy cz of
              (None, w') \<Rightarrow> (False, w')
            | (Some (key, brick), w') \<Rightarrow>
                (let idx = getBrickLocalIndex w' lx ly lz;
                     brick1 = ta_set brick idx (word_of_int r);
                     brick2 = ta_set brick1 (idx + 1) (word_of_int g);
                     brick3 = ta_set brick2 (idx + 2) (word_of_int b);
                     brick4 = ta_set brick3 (idx + 3) (word_of_int a)
                 in (True, w' \<lparr> bricks := AList.update key brick4 (bricks w') \<rparr>))))"

text \<open>\<open>getVoxel\<close>: \<open>None\<close> is the \<open>null\<close> result; the world is only read.\<close>

definition getVoxel :: "BrickMapWorld \<Rightarrow> int \<Rightarrow> int \<Rightarrow> int \<Rightarrow> voxel option" where
  "getVoxel w x y z =
     (if x < 0 \<or> x \<ge> worldSize w \<or> y < 0 \<or> y \<ge> worldSize w \<or> z < 0 \<or> z \<ge> worldSize w
      then None
      else
        (let (cx, cy, cz) = worldToCoarse w x y z;
             coarseIdx = getCoarseIndex w cx cy cz
         in if coarseIdx < 0 then None
            else case ta_get (coarseGrid w) coarseIdx of
              None \<Rightarrow> None
            | Some cell \<Rightarrow>
                if uint cell = 0
                then Some \<lparr> red = Some 0, green = Some 0, blue = Some 0, alpha = Some 0 \<rparr>
                else (case map_of (bricks w) (uint cell) of
                  None \<Rightarrow> None
                | Some brick \<Rightarrow>
                    (let (lx, ly, lz) = worldToLocal w x y z;
                         idx = getBrickLocalIndex w lx ly lz
                     in Some \<lparr> red = map_option uint (ta_get brick idx),
                               green = map_option uint (ta_get brick (idx + 1)),
                               blue = map_option uint (ta_get brick (idx + 2)),
                               alpha = map_option uint (ta_get brick (idx + 3)) \<rparr>))))"

text \<open>\<open>clear\<close>: \<open>fill(0)\<close> keeps the grid's length.\<close>

definition clear :: "BrickMapWorld \<Rightarrow> BrickMapWorld" where
  "clear w = w \<lparr> coarseGrid := map (\<lambda>_. 0) (coarseGrid w), bricks := [],
                 nextBrickIndex := 1, voxelCount := 0, brickCount := 0 \<rparr>"

text \<open>
  \<open>countVoxels\<close>: the loop \<open>for (let i = 3; i < brick.length; i += 4)\<close> over one brick,
  then over every brick of the \<open>Map\<close>.
\<close>

function countBrick :: "8 word list \<Rightarrow> nat \<Rightarrow> int \<Rightarrow> int" where
  "countBrick brick i n =
     (if i < length brick
      then countBrick brick (i + 4) (if uint (brick ! i) > 0 then n + 1 else n)
      else n)"
  by pat_completeness auto
termination
  by (relation "measure (\<lambda>(brick, i, n). length brick - i)") auto

definition countVoxels :: "BrickMapWorld \<Rightarrow> BrickMapWorld" where
  "countVoxels w = w \<lparr> voxelCount := fold (\<lambda>(brickIndex, brick) n. countBrick brick 3 n) (bricks w) 0 \<rparr>"

text \<open>
  \<open>buildAtlas\<close>. A source byte read outside the brick would be \<open>undefined\<close>, which a
  \<open>Uint8Array\<close> stores as 0. The three nested \<open>for\<close> loops run \<open>lz\<close>, \<open>ly\<close>, \<open>lx\<close> over
  \<open>0, ..., brickSize - 1\<close>; the outer loop visits the bricks in the order of the \<open>Map\<close>.
  \<open>new Uint8Array(n)\<close> throws a RangeError for a negative \<open>n\<close>: \<open>None\<close>.
\<close>

definition ta_read :: "8 word list \<Rightarrow> int \<Rightarrow> 8 word" where
  "ta_read xs i = (case ta_get xs i of None \<Rightarrow> 0 | Some v \<Rightarrow> v)"

definition copyVoxel ::
  "int \<Rightarrow> int \<Rightarrow> 8 word list \<Rightarrow> int \<Rightarrow> int \<Rightarrow> int \<Rightarrow> int \<Rightarrow> int \<Rightarrow> int \<Rightarrow> 8 word list \<Rightarrow> 8 word list" where
  "copyVoxel bs atlasVoxelSize brickData ax ay az lz ly lx atlas =
     (let srcIdx = (lx + ly * bs + lz * bs * bs) * 4;
          atlasX = ax * bs + lx;
          atlasY = ay * bs + ly;
          atlasZ = az * bs + lz;
          dstIdx = (atlasX + atlasY * atlasVoxelSize + atlasZ * atlasVoxelSize * atlasVoxelSize) * 4;
          atlas1 = ta_set atlas dstIdx (ta_read brickData srcIdx);
          atlas2 = ta_set atlas1 (dstIdx + 1) (ta_read brickData (srcIdx + 1));
          atlas3 = ta_set atlas2 (dstIdx + 2) (ta_read brickData (srcIdx + 2))
      in ta_set atlas3 (dstIdx + 3) (ta_read brickData (srcIdx + 3)))"

definition copyBrick :: "int \<Rightarrow> int \<Rightarrow> int \<Rightarrow> int \<times> 8 word list \<Rightarrow> 8 word list \<Rightarrow> 8 word list" where
  "copyBrick bs as atlasVoxelSize entry atlas =
     (let (brickIndex, brickData) = entry;
          idx = brickIndex - 1;
          ax = js_rem idx as;
          ay = js_rem (js_floor_div idx as) as;
          az = js_floor_div idx (as * as)
      in fold (\<lambda>lz. fold (\<lambda>ly. fold (copyVoxel bs atlasVoxelSize brickData ax ay az lz ly)
                                   [0..bs - 1]) [0..bs - 1]) [0..bs - 1] atlas)"

definition buildAtlas :: "BrickMapWorld \<Rightarrow> BrickMapWorld option" where
  "buildAtlas w =
     (let atlasVoxelSize = atlasSize w * brickSize w;
          n = atlasVoxelSize * atlasVoxelSize * atlasVoxelSize * 4
      in if n < 0 then None
         else Some (w \<lparr> brickAtlasData :=
                Some (fold (copyBrick (brickSize w) (atlasSize w) atlasVoxelSize) (bricks w)
                        (ta_new n)) \<rparr>))"

subsection \<open>Sequences of calls\<close>

text \<open>
  The mutating methods of the class. A world that a program can hold is the result of the
  constructor followed by a sequence of such calls; a call that throws leaves the world
  as it was.
\<close>

datatype call =
    SetVoxel int int int int int int int
  | Clear
  | CountVoxels
  | BuildAtlas

fun apply_call :: "BrickMapWorld \<Rightarrow> call \<Rightarrow> BrickMapWorld" where
  "apply_call w (SetVoxel x y z r g b a) = snd (setVoxel w x y z r g b a)"
| "apply_call w Clear = clear w"
| "apply_call w CountVoxels = countVoxels w"
| "apply_call w BuildAtlas = (case buildAtlas w of None \<Rightarrow> w | Some w' \<Rightarrow> w')"

definition run :: "BrickMapWorld \<Rightarrow> call list \<Rightarrow> BrickMapWorld" where
  "run w cs = foldl apply_call w cs"

subsection \<open>Notions used in the statements\<close>

text \<open>The coordinate passes the bounds check of \<open>setVoxel\<close> and \<open>getVoxel\<close>.\<close>

definition inBounds :: "BrickMapWorld \<Rightarrow> int \<Rightarrow> int \<Rightarrow> int \<Rightarrow> bool" where
  "inBounds w x y z \<longleftrightarrow>
     0 \<le> x \<and> x < worldSize w \<and> 0 \<le> y \<and> y < worldSize w \<and> 0 \<le> z \<and> z < worldSize w"

text \<open>The coarse-grid index of a voxel's cell and the offset of its record in its brick,
  as \<open>setVoxel\<close> and \<open>getVoxel\<close> compute them.\<close>

definition voxelCell :: "BrickMapWorld \<Rightarrow> int \<Rightarrow> int \<Rightarrow> int \<Rightarrow> int" where
  "voxelCell w x y z = (let (cx, cy, cz) = worldToCoarse w x y z in getCoarseIndex w cx cy cz)"

definition voxelSlot :: "BrickMapWorld \<Rightarrow> int \<Rightarrow> int \<Rightarrow> int \<Rightarrow> int" where
  "voxelSlot w x y z = (let (lx, ly, lz) = worldToLocal w x y z in getBrickLocalIndex w lx ly lz)"

text \<open>The four byte writes of \<open>setVoxel\<close> and the four byte reads of \<open>getVoxel\<close>.\<close>

definition writeVoxel :: "8 word list \<Rightarrow> int \<Rightarrow> int \<Rightarrow> int \<Rightarrow> int \<Rightarrow> int \<Rightarrow> 8 word list" where
  "writeVoxel d i r g b a =
     ta_set (ta_set (ta_set (ta_set d i (word_of_int r)) (i + 1) (word_of_int g))
       (i + 2) (word_of_int b)) (i + 3) (word_of_int a)"

definition readVoxel :: "8 word list \<Rightarrow> int \<Rightarrow> voxel" where
  "readVoxel d i = \<lparr> red = map_option uint (ta_get d i), green = map_option uint (ta_get d (i + 1)),
                     blue = map_option uint (ta_get d (i + 2)), alpha = map_option uint (ta_get d (i + 3)) \<rparr>"

definition emptyVoxel :: voxel where
  "emptyVoxel = \<lparr> red = Some 0, green = Some 0, blue = Some 0, alpha = Some 0 \<rparr>"

text \<open>
  The invariant of a world built by the constructor and the calls above, for a coarse grid
  of fewer than \<open>2 ^ 32\<close> cells (every brick index then fits an element of the
  \<open>Uint32Array\<close>): the brick indices in use are \<open>1, ..., brickCount\<close>, in this order in the
  \<open>Map\<close>; every brick has \<open>brickSize\<^sup>3\<close> records; the cells that hold a brick hold
  different ones.
\<close>

definition world_inv :: "BrickMapWorld \<Rightarrow> bool" where
  "world_inv w \<longleftrightarrow>
     0 \<le> coarseSize w \<and> coarseSize w * coarseSize w * coarseSize w < 2 ^ 32 \<and>
     worldSize w = coarseSize w * brickSize w \<and>
     int (length (coarseGrid w)) = coarseSize w * coarseSize w * coarseSize w \<and>
     atlasSize w = 64 \<and>
     nextBrickIndex w = brickCount w + 1 \<and>
     brickCount w = int (length (filter (\<lambda>c. c \<noteq> 0) (coarseGrid w))) \<and>
     map fst (bricks w) = [1..brickCount w] \<and>
     (\<forall>k d. map_of (bricks w) k = Some d \<longrightarrow>
        int (length d) = brickSize w * brickSize w * brickSize w * 4) \<and>
     (\<forall>c \<in> set (coarseGrid w). uint c \<le> brickCount w) \<and>
     distinct (filter (\<lambda>c. c \<noteq> 0) (coarseGrid w))"


text \<open>A call that writes the voxel \<open>(x, y, z)\<close>; a \<open>setVoxel\<close> call that is in bounds and
  falls into the coarse cell \<open>cell\<close>.\<close>

definition writes :: "call \<Rightarrow> int \<Rightarrow> int \<Rightarrow> int \<Rightarrow> bool" where
  "writes c x y z = (case c of SetVoxel x' y' z' r g b a \<Rightarrow> x' = x \<and> y' = y \<and> z' = z | _ \<Rightarrow> False)"


text \<open>
  A voxel is occupied when \<open>getVoxel\<close> returns a record with \<open>a > 0\<close>; a coarse cell is
  occupied when one of the voxels of its region is; \<open>allBricksOccupied\<close> says that every
  non-zero coarse cell is occupied. \<open>writesOccupied\<close> holds of a \<open>setVoxel\<close> call that
  writes an occupied record (\<open>0 < a \<le> 255\<close>: it removes no voxel), \<open>storesOccupied\<close> of one
  whose alpha argument is stored as a non-zero byte; both hold of every other call.
\<close>

definition occupied :: "BrickMapWorld \<Rightarrow> int \<Rightarrow> int \<Rightarrow> int \<Rightarrow> bool" where
  "occupied w x y z =
     (case getVoxel w x y z of None \<Rightarrow> False
      | Some v \<Rightarrow> (case alpha v of None \<Rightarrow> False | Some al \<Rightarrow> al > 0))"

definition cellOccupied :: "BrickMapWorld \<Rightarrow> int \<Rightarrow> bool" where
  "cellOccupied w i \<longleftrightarrow>
     (\<exists>x \<in> set [0..worldSize w - 1]. \<exists>y \<in> set [0..worldSize w - 1]. \<exists>z \<in> set [0..worldSize w - 1].
        voxelCell w x y z = i \<and> occupied w x y z)"

definition allBricksOccupied :: "BrickMapWorld \<Rightarrow> bool" where
  "allBricksOccupied w \<longleftrightarrow>
     (\<forall>i \<in> set [0..<length (coarseGrid w)].
        coarseGrid w ! i \<noteq> 0 \<longrightarrow> cellOccupied w (int i))"

definition writesOccupied :: "call \<Rightarrow> bool" where
  "writesOccupied c = (case c of SetVoxel x y z r g b a \<Rightarrow> 0 < a \<and> a \<le> 255 | _ \<Rightarrow> True)"

definition storesOccupied :: "call \<Rightarrow> bool" where
  "storesOccupied c = (case c of SetVoxel x y z r g b a \<Rightarrow> a mod 256 \<noteq> 0 | _ \<Rightarrow> True)"


subsection \<open>The atlas\<close>

text \<open>
  The atlas cell of a brick index as the specification gives it:
  \<open>((idx - 1) mod A, ((idx - 1) / A) mod A, (idx - 1) / A\<^sup>2)\<close>.
\<close>

definition atlasPos :: "int \<Rightarrow> int \<Rightarrow> int \<times> int \<times> int" where
  "atlasPos as idx = ((idx - 1) mod as, ((idx - 1) div as) mod as, (idx - 1) div (as * as))"

text \<open>
  The 4-channel record of the buffer at the atlas coordinate \<open>(X, Y, Z)\<close>: the buffer is a
  block of \<open>avs\<^sup>3\<close> records with \<open>X\<close> varying fastest, the layout \<open>buildAtlas\<close> writes
  (\<open>dstIdx\<close>) and the upload reads.
\<close>

definition atlasRecord :: "8 word list \<Rightarrow> int \<Rightarrow> int \<Rightarrow> int \<Rightarrow> int \<Rightarrow> voxel" where
  "atlasRecord data avs X Y Z = readVoxel data ((X + Y * avs + Z * avs * avs) * 4)"

text \<open>
  What the atlas built from a world holds for the voxel \<open>(x, y, z)\<close>: the record at the
  atlas cell of the voxel's brick index, scaled by the brick size, plus the voxel's
  local coordinate.
\<close>

definition atlasVoxel :: "BrickMapWorld \<Rightarrow> int \<Rightarrow> int \<Rightarrow> int \<Rightarrow> voxel option" where
  "atlasVoxel w x y z =
     (case buildAtlas w of None \<Rightarrow> None
      | Some w' \<Rightarrow>
         (case brickAtlasData w' of None \<Rightarrow> None
          | Some data \<Rightarrow>
             (case ta_get (coarseGrid w) (voxelCell w x y z) of None \<Rightarrow> None
              | Some cell \<Rightarrow>
                 (let (ax, ay, az) = atlasPos (atlasSize w) (uint cell);
                      (lx, ly, lz) = worldToLocal w x y z;
                      bs = brickSize w
                  in Some (atlasRecord data (atlasSize w * bs)
                             (ax * bs + lx) (ay * bs + ly) (az * bs + lz))))))"

text \<open>
  The record offset \<open>dstIdx / 4\<close> that \<open>buildAtlas\<close> computes for the local coordinate
  \<open>(lx, ly, lz)\<close> of the brick with index \<open>k\<close>, and the range of the three loop
  variables.
\<close>

definition texel :: "int \<Rightarrow> int \<Rightarrow> int \<Rightarrow> int \<Rightarrow> int \<Rightarrow> int \<Rightarrow> int \<Rightarrow> int" where
  "texel bs as avs k lx ly lz =
     (let idx = k - 1;
          ax = js_rem idx as;
          ay = js_rem (js_floor_div idx as) as;
          az = js_floor_div idx (as * as)
      in (ax * bs + lx) + (ay * bs + ly) * avs + (az * bs + lz) * avs * avs)"

definition inBrick :: "int \<Rightarrow> int \<Rightarrow> int \<Rightarrow> int \<Rightarrow> bool" where
  "inBrick bs lx ly lz \<longleftrightarrow> 0 \<le> lx \<and> lx < bs \<and> 0 \<le> ly \<and> ly < bs \<and> 0 \<le> lz \<and> lz < bs"

text \<open>
  A step \<open>f\<close> on a typed array that keeps its length, leaves the positions outside \<open>H\<close>
  as they are and, at a position of \<open>H\<close> inside the array, leaves a value that
  satisfies \<open>Q\<close>.
\<close>

definition writes_spec ::
  "('a list \<Rightarrow> 'a list) \<Rightarrow> (int \<Rightarrow> bool) \<Rightarrow> (int \<Rightarrow> 'a \<Rightarrow> bool) \<Rightarrow> bool" where
  "writes_spec f H Q \<longleftrightarrow>
     (\<forall>xs. length (f xs) = length xs \<and>
       (\<forall>p. (0 \<le> p \<and> p < int (length xs) \<and> H p \<longrightarrow> (\<exists>v. Q p v \<and> ta_get (f xs) p = Some v)) \<and>
            (\<not> H p \<longrightarrow> ta_get (f xs) p = ta_get xs p)))"

text \<open>
  One opaque red voxel into each of the first \<open>n\<close> coarse cells of a world of brick size 1:
  the calls \<open>setVoxel(k mod cs, (k / cs) mod cs, k / cs\<^sup>2, 255, 0, 0, 255)\<close> for
  \<open>k = 0, ..., n - 1\<close>.
\<close>

definition fillCells :: "int \<Rightarrow> int \<Rightarrow> call list" where
  "fillCells cs n =
     map (\<lambda>k. SetVoxel (k mod cs) ((k div cs) mod cs) (k div (cs * cs)) 255 0 0 255) [0..n - 1]"


section \<open>The traversal of the fragment shader (src/showcase.js, FRAGMENT_SHADER_SOURCE)\<close>

subsection \<open>Floating-point values\<close>

text \<open>
  A \<open>float\<close> of the shader is NaN, an infinity or a finite number. The arithmetic follows
  IEEE 754: an operation on finite numbers computes the exact result and rounds it with the
  rounding \<open>R\<close> of the GPU, a parameter of every function below (\<open>R\<close> may return an infinity:
  overflow); a non-zero number divided by zero is an infinity, \<open>0 / 0\<close>, \<open>\<infinity> - \<infinity>\<close> and
  \<open>0 * \<infinity>\<close> are NaN, and every comparison with NaN is false. The two zeros are one value
  here: the shader takes \<open>abs\<close>, \<open>min\<close> or \<open>max\<close> of each quotient whose sign a negative zero
  would change. \<open>min(x, y)\<close> is \<open>y < x ? y : x\<close> and \<open>max(x, y)\<close> is \<open>x < y ? y : x\<close>, as GLSL
  defines them; \<open>sign\<close> of NaN and the conversion of NaN or an infinity to \<open>int\<close>, which GLSL
  leaves open, are 0.
\<close>

datatype fl = NaN | NInf | Fin rat | PInf

type_synonym rounding = "rat \<Rightarrow> fl"

fun fneg :: "fl \<Rightarrow> fl" where
  "fneg NaN = NaN"
| "fneg NInf = PInf"
| "fneg PInf = NInf"
| "fneg (Fin a) = Fin (- a)"

fun fadd :: "rounding \<Rightarrow> fl \<Rightarrow> fl \<Rightarrow> fl" where
  "fadd R (Fin a) (Fin b) = R (a + b)"
| "fadd R NaN y = NaN"
| "fadd R x NaN = NaN"
| "fadd R PInf NInf = NaN"
| "fadd R NInf PInf = NaN"
| "fadd R PInf y = PInf"
| "fadd R NInf y = NInf"
| "fadd R x PInf = PInf"
| "fadd R x NInf = NInf"

definition fsub :: "rounding \<Rightarrow> fl \<Rightarrow> fl \<Rightarrow> fl" where
  "fsub R x y = fadd R x (fneg y)"

text \<open>The sign of a value as an integer; \<open>None\<close> for NaN.\<close>

fun fsgn :: "fl \<Rightarrow> int option" where
  "fsgn NaN = None"
| "fsgn NInf = Some (- 1)"
| "fsgn PInf = Some 1"
| "fsgn (Fin a) = Some (if a < 0 then - 1 else if a = 0 then 0 else 1)"

definition inf_of_sign :: "int \<Rightarrow> fl" where
  "inf_of_sign s = (if s < 0 then NInf else if s = 0 then NaN else PInf)"

fun fmul :: "rounding \<Rightarrow> fl \<Rightarrow> fl \<Rightarrow> fl" where
  "fmul R (Fin a) (Fin b) = R (a * b)"
| "fmul R x y =
     (case (fsgn x, fsgn y) of (Some s, Some t) \<Rightarrow> inf_of_sign (s * t) | _ \<Rightarrow> NaN)"

fun fdiv :: "rounding \<Rightarrow> fl \<Rightarrow> fl \<Rightarrow> fl" where
  "fdiv R (Fin a) (Fin b) =
     (if b = 0 then inf_of_sign (if a < 0 then - 1 else if a = 0 then 0 else 1) else R (a / b))"
| "fdiv R NaN y = NaN"
| "fdiv R x NaN = NaN"
| "fdiv R (Fin a) y = Fin 0"
| "fdiv R x (Fin b) =
     (case fsgn x of Some s \<Rightarrow> inf_of_sign (if b < 0 then - s else s) | None \<Rightarrow> NaN)"
| "fdiv R x y = NaN"

fun fabs :: "fl \<Rightarrow> fl" where
  "fabs NaN = NaN"
| "fabs NInf = PInf"
| "fabs PInf = PInf"
| "fabs (Fin a) = Fin \<bar>a\<bar>"

fun fsign :: "fl \<Rightarrow> fl" where
  "fsign x = (case fsgn x of None \<Rightarrow> Fin 0 | Some s \<Rightarrow> Fin (of_int s))"

fun ffloor :: "fl \<Rightarrow> fl" where
  "ffloor (Fin a) = Fin (of_int \<lfloor>a\<rfloor>)"
| "ffloor x = x"

fun flt :: "fl \<Rightarrow> fl \<Rightarrow> bool" where
  "flt (Fin a) (Fin b) = (a < b)"
| "flt NaN y = False"
| "flt x NaN = False"
| "flt NInf NInf = False"
| "flt NInf y = True"
| "flt PInf y = False"
| "flt x PInf = True"
| "flt x NInf = False"

definition fmin :: "fl \<Rightarrow> fl \<Rightarrow> fl" where
  "fmin x y = (if flt y x then y else x)"

definition fmax :: "fl \<Rightarrow> fl \<Rightarrow> fl" where
  "fmax x y = (if flt x y then y else x)"

fun f2i :: "fl \<Rightarrow> int" where
  "f2i (Fin a) = (if a < 0 then - \<lfloor>- a\<rfloor> else \<lfloor>a\<rfloor>)"
| "f2i x = 0"

definition i2f :: "rounding \<Rightarrow> int \<Rightarrow> fl" where
  "i2f R n = R (of_int n)"


subsection \<open>Vectors\<close>

type_synonym vec3 = "fl \<times> fl \<times> fl"
type_synonym ivec3 = "int \<times> int \<times> int"
type_synonym vec4 = "fl \<times> fl \<times> fl \<times> fl"

definition vmap :: "('a \<Rightarrow> 'b) \<Rightarrow> 'a \<times> 'a \<times> 'a \<Rightarrow> 'b \<times> 'b \<times> 'b" where
  "vmap f v = (case v of (x, y, z) \<Rightarrow> (f x, f y, f z))"

definition vzip :: "('a \<Rightarrow> 'b \<Rightarrow> 'c) \<Rightarrow> 'a \<times> 'a \<times> 'a \<Rightarrow> 'b \<times> 'b \<times> 'b \<Rightarrow> 'c \<times> 'c \<times> 'c" where
  "vzip f u v = (case (u, v) of ((x, y, z), (x', y', z')) \<Rightarrow> (f x x', f y y', f z z'))"

definition splat :: "'a \<Rightarrow> 'a \<times> 'a \<times> 'a" where
  "splat x = (x, x, x)"

definition vx :: "'a \<times> 'a \<times> 'a \<Rightarrow> 'a" where "vx v = fst v"
definition vy :: "'a \<times> 'a \<times> 'a \<Rightarrow> 'a" where "vy v = fst (snd v)"
definition vz :: "'a \<times> 'a \<times> 'a \<Rightarrow> 'a" where "vz v = snd (snd v)"

text \<open>\<open>clamp(x, lo, hi)\<close> on integers is \<open>min(max(x, lo), hi)\<close>.\<close>

definition iclamp :: "int \<Rightarrow> int \<Rightarrow> int \<Rightarrow> int" where
  "iclamp x lo hi = min (max x lo) hi"

subsection \<open>Uniforms and textures\<close>

record uniforms =
  u_coarseGrid :: "32 word list"
  u_coarseGridDim :: int
  u_brickAtlas :: "8 word list"
  u_brickAtlasDim :: int
  u_coarseGridSize :: vec3
  u_atlasSize :: vec3
  u_maxSteps :: int

definition BRICK_SIZE :: int where
  "BRICK_SIZE = 8"

record HitResult =
  hit :: bool
  pos :: vec3
  normal :: vec3
  color :: vec4
  distance :: fl
  steps :: int

definition getWorldSize :: "rounding \<Rightarrow> uniforms \<Rightarrow> vec3" where
  "getWorldSize R u = vmap (\<lambda>c. fmul R c (i2f R BRICK_SIZE)) (u_coarseGridSize u)"

definition intersectAABB :: "rounding \<Rightarrow> vec3 \<Rightarrow> vec3 \<Rightarrow> vec3 \<Rightarrow> vec3 \<Rightarrow> fl \<times> fl" where
  "intersectAABB R rayOrigin rayDir boxMin boxMax =
     (let tMin = vzip (fdiv R) (vzip (fsub R) boxMin rayOrigin) rayDir;
          tMax = vzip (fdiv R) (vzip (fsub R) boxMax rayOrigin) rayDir;
          t1 = vzip fmin tMin tMax;
          t2 = vzip fmax tMin tMax;
          tNear = fmax (fmax (vx t1) (vy t1)) (vz t1);
          tFar = fmin (fmin (vx t2) (vy t2)) (vz t2)
      in (tNear, tFar))"

text \<open>
  \<open>texelFetch\<close> on the coarse-grid texture (\<open>R32UI\<close>, uploaded from the \<open>Uint32Array\<close> with
  \<open>x\<close> varying fastest) and on the atlas texture (\<open>RGBA8\<close>: each byte \<open>c\<close> is read as
  \<open>c / 255\<close>). A fetch outside the texture returns zeros.
\<close>

definition inTexture :: "int \<Rightarrow> ivec3 \<Rightarrow> bool" where
  "inTexture dm p = (case p of (x, y, z) \<Rightarrow>
     0 \<le> x \<and> x < dm \<and> 0 \<le> y \<and> y < dm \<and> 0 \<le> z \<and> z < dm)"

definition texelIndex :: "int \<Rightarrow> ivec3 \<Rightarrow> int" where
  "texelIndex dm p = (case p of (x, y, z) \<Rightarrow> x + y * dm + z * dm * dm)"

definition fetchCoarse :: "uniforms \<Rightarrow> ivec3 \<Rightarrow> 32 word" where
  "fetchCoarse u p =
     (if inTexture (u_coarseGridDim u) p
      then (case ta_get (u_coarseGrid u) (texelIndex (u_coarseGridDim u) p) of
              None \<Rightarrow> 0 | Some c \<Rightarrow> c)
      else 0)"

definition unorm :: "rounding \<Rightarrow> 8 word \<Rightarrow> fl" where
  "unorm R c = R (of_int (uint c) / 255)"

definition fetchAtlas :: "rounding \<Rightarrow> uniforms \<Rightarrow> ivec3 \<Rightarrow> vec4" where
  "fetchAtlas R u p =
     (if inTexture (u_brickAtlasDim u) p
      then (let i = texelIndex (u_brickAtlasDim u) p * 4 in
            (unorm R (ta_read (u_brickAtlas u) i), unorm R (ta_read (u_brickAtlas u) (i + 1)),
             unorm R (ta_read (u_brickAtlas u) (i + 2)), unorm R (ta_read (u_brickAtlas u) (i + 3))))
      else (R 0, R 0, R 0, R 0))"

text \<open>Integer division of GLSL truncates towards zero; \<open>%\<close> is its remainder.\<close>

definition glsl_div :: "int \<Rightarrow> int \<Rightarrow> int" where
  "glsl_div x m = sgn x * sgn m * (\<bar>x\<bar> div \<bar>m\<bar>)"

definition glsl_mod :: "int \<Rightarrow> int \<Rightarrow> int" where
  "glsl_mod x m = x - m * glsl_div x m"

definition getBrickIndex :: "uniforms \<Rightarrow> ivec3 \<Rightarrow> 32 word" where
  "getBrickIndex u coarsePos =
     (case coarsePos of (x, y, z) \<Rightarrow>
        if x < 0 \<or> y < 0 \<or> z < 0 \<or>
           x \<ge> f2i (vx (u_coarseGridSize u)) \<or>
           y \<ge> f2i (vy (u_coarseGridSize u)) \<or>
           z \<ge> f2i (vz (u_coarseGridSize u))
        then 0
        else fetchCoarse u coarsePos)"

definition brickIndexToAtlasPos :: "uniforms \<Rightarrow> 32 word \<Rightarrow> ivec3" where
  "brickIndexToAtlasPos u brickIndex =
     (let idx = sint brickIndex - 1;
          atlasWidth = f2i (vx (u_atlasSize u));
          atlasHeight = f2i (vy (u_atlasSize u));
          x = glsl_mod idx atlasWidth;
          y = glsl_mod (glsl_div idx atlasWidth) atlasHeight;
          z = glsl_div idx (atlasWidth * atlasHeight)
      in (x, y, z))"

definition getVoxelFromBrick :: "rounding \<Rightarrow> uniforms \<Rightarrow> 32 word \<Rightarrow> ivec3 \<Rightarrow> vec4" where
  "getVoxelFromBrick R u brickIndex localPos =
     (if brickIndex = 0 then (R 0, R 0, R 0, R 0)
      else
        (let atlasPos = brickIndexToAtlasPos u brickIndex;
             texelPos = vzip (+) (vmap (\<lambda>c. c * BRICK_SIZE) atlasPos) localPos
         in fetchAtlas R u texelPos))"

text \<open>
  The step of the DDA, written twice in the source (in \<open>traceBrick\<close> and in \<open>traceRay\<close>):
  the axis chosen by the nested comparisons of \<open>sideDist\<close> (0 for x, 1 for y, 2 for z),
  and the update of \<open>sideDist\<close> and of the position along that axis.
\<close>

definition ddaAxis :: "vec3 \<Rightarrow> int" where
  "ddaAxis sideDist =
     (if flt (vx sideDist) (vy sideDist)
      then (if flt (vx sideDist) (vz sideDist) then 0 else 2)
      else (if flt (vy sideDist) (vz sideDist) then 1 else 2))"

definition ddaSide :: "rounding \<Rightarrow> int \<Rightarrow> vec3 \<Rightarrow> vec3 \<Rightarrow> vec3" where
  "ddaSide R axis sideDist deltaDist =
     (case (sideDist, deltaDist) of ((sx, sy, sz), (dx, dy, dz)) \<Rightarrow>
        if axis = 0 then (fadd R sx dx, sy, sz)
        else if axis = 1 then (sx, fadd R sy dy, sz)
        else (sx, sy, fadd R sz dz))"

definition ddaPos :: "int \<Rightarrow> ivec3 \<Rightarrow> ivec3 \<Rightarrow> ivec3" where
  "ddaPos axis p step =
     (case (p, step) of ((px, py, pz), (stx, sty, stz)) \<Rightarrow>
        if axis = 0 then (px + stx, py, pz)
        else if axis = 1 then (px, py + sty, pz)
        else (px, py, pz + stz))"

definition axisOf :: "int \<Rightarrow> 'a \<times> 'a \<times> 'a \<Rightarrow> 'a" where
  "axisOf side v = (if side = 0 then vx v else if side = 1 then vy v else vz v)"

text \<open>The hit branch of \<open>traceBrick\<close>: the fields of the result it assigns.\<close>

definition brickHit ::
  "rounding \<Rightarrow> vec3 \<Rightarrow> vec3 \<Rightarrow> vec3 \<Rightarrow> ivec3 \<Rightarrow> HitResult \<Rightarrow> vec4 \<Rightarrow> ivec3 \<Rightarrow> int \<Rightarrow> HitResult" where
  "brickHit R rayOrigin rayDir brickMin step result voxel mapPos side =
     (let worldPos = vzip (fadd R) brickMin (vmap (i2f R) mapPos);
          n = fneg (i2f R (axisOf side step));
          nrm = (if side = 0 then (n, R 0, R 0)
                 else if side = 1 then (R 0, n, R 0) else (R 0, R 0, n));
          dst = fdiv R (fadd R (fsub R (axisOf side worldPos) (axisOf side rayOrigin))
                           (fdiv R (fsub R (R 1) (i2f R (axisOf side step))) (R 2)))
                   (axisOf side rayDir)
      in result \<lparr> hit := True, pos := worldPos, normal := nrm, color := voxel,
                  distance := dst \<rparr>)"

text \<open>
  The loop of \<open>traceBrick\<close>, \<open>for (int i = 0; i < BRICK_SIZE * 3; i++)\<close>, by recursion on
  the number of iterations that remain; the body does not read \<open>i\<close>.
\<close>

fun brickLoop ::
  "nat \<Rightarrow> rounding \<Rightarrow> uniforms \<Rightarrow> 32 word \<Rightarrow> vec3 \<Rightarrow> vec3 \<Rightarrow> vec3 \<Rightarrow> ivec3 \<Rightarrow> vec3 \<Rightarrow>
   HitResult \<Rightarrow> ivec3 \<Rightarrow> vec3 \<Rightarrow> int \<Rightarrow> bool \<times> HitResult" where
  "brickLoop 0 R u brickIndex rayOrigin rayDir brickMin step deltaDist result mapPos sideDist side =
     (False, result)"
| "brickLoop (Suc n) R u brickIndex rayOrigin rayDir brickMin step deltaDist result mapPos sideDist side =
     (let voxel = getVoxelFromBrick R u brickIndex mapPos in
      if flt (R 0) (snd (snd (snd voxel)))
      then (True, brickHit R rayOrigin rayDir brickMin step result voxel mapPos side)
      else
        (let axis = ddaAxis sideDist;
             sideDist' = ddaSide R axis sideDist deltaDist;
             mapPos' = ddaPos axis mapPos step
         in if vx mapPos' < 0 \<or> vx mapPos' \<ge> BRICK_SIZE \<or>
               vy mapPos' < 0 \<or> vy mapPos' \<ge> BRICK_SIZE \<or>
               vz mapPos' < 0 \<or> vz mapPos' \<ge> BRICK_SIZE
            then (False, result)
            else brickLoop n R u brickIndex rayOrigin rayDir brickMin step deltaDist result
                   mapPos' sideDist' axis))"

text \<open>The set-up of a DDA: \<open>(sign(d) * (vec3(p) - start) + (sign(d) * 0.5) + 0.5) * deltaDist\<close>.\<close>

definition initSideDist :: "rounding \<Rightarrow> vec3 \<Rightarrow> ivec3 \<Rightarrow> vec3 \<Rightarrow> vec3 \<Rightarrow> vec3" where
  "initSideDist R dir p start deltaDist =
     vzip (fmul R)
       (vmap (\<lambda>c. fadd R c (R (1/2)))
          (vzip (fadd R)
             (vzip (fmul R) (vmap fsign dir) (vzip (fsub R) (vmap (i2f R) p) start))
             (vmap (\<lambda>c. fmul R c (R (1/2))) (vmap fsign dir))))
       deltaDist"

text \<open>
  The distance along the ray between two crossings of the planes of one axis, for cells of
  size \<open>c\<close>: \<open>abs(vec3(c) / rayDir)\<close>, in \<open>traceBrick\<close> with \<open>c = 1.0\<close> and in \<open>traceRay\<close>
  with \<open>c = float(BRICK_SIZE)\<close>.
\<close>

definition deltaDistOf :: "rounding \<Rightarrow> fl \<Rightarrow> vec3 \<Rightarrow> vec3" where
  "deltaDistOf R c rayDir = vmap fabs (vzip (fdiv R) (splat c) rayDir)"

definition traceBrick ::
  "rounding \<Rightarrow> uniforms \<Rightarrow> 32 word \<Rightarrow> vec3 \<Rightarrow> vec3 \<Rightarrow> ivec3 \<Rightarrow> HitResult \<Rightarrow> bool \<times> HitResult" where
  "traceBrick R u brickIndex rayOrigin rayDir coarsePos result =
     (let brickMin = vmap (i2f R) (vmap (\<lambda>c. c * BRICK_SIZE) coarsePos);
          brickMax = vmap (\<lambda>c. fadd R c (i2f R BRICK_SIZE)) brickMin;
          tBox = intersectAABB R rayOrigin rayDir brickMin brickMax
      in if flt (snd tBox) (fst tBox) \<or> flt (snd tBox) (R 0) then (False, result)
         else
           (let tStart = fadd R (fmax (R 0) (fst tBox)) (R (1/1000));
                startPos = vzip (fadd R) rayOrigin (vmap (\<lambda>d. fmul R d tStart) rayDir);
                localStart = vzip (fsub R) startPos brickMin;
                mapPos = vmap (\<lambda>c. iclamp (f2i (ffloor c)) 0 (BRICK_SIZE - 1)) localStart;
                step = vmap (f2i \<circ> fsign) rayDir;
                deltaDist = deltaDistOf R (R 1) rayDir;
                sideDist = initSideDist R rayDir mapPos localStart deltaDist
            in brickLoop (nat (BRICK_SIZE * 3)) R u brickIndex rayOrigin rayDir brickMin step
                 deltaDist result mapPos sideDist 0))"

text \<open>
  The loop of \<open>traceRay\<close>, \<open>for (int i = 0; i < 512; i++)\<close>, by recursion on the number of
  iterations that remain, with \<open>i\<close> passed along for the \<open>u_maxSteps\<close> test and the step
  count. The second component of the value counts the iterations whose body ran (past
  the \<open>u_maxSteps\<close> test); the source has no such counter, it is there to state how often
  the loop runs.
\<close>

fun coarseLoop ::
  "nat \<Rightarrow> rounding \<Rightarrow> uniforms \<Rightarrow> vec3 \<Rightarrow> vec3 \<Rightarrow> ivec3 \<Rightarrow> vec3 \<Rightarrow> int \<Rightarrow> HitResult \<Rightarrow>
   ivec3 \<Rightarrow> vec3 \<Rightarrow> HitResult \<times> nat" where
  "coarseLoop 0 R u origin direction step deltaDist i result coarsePos sideDist = (result, 0)"
| "coarseLoop (Suc n) R u origin direction step deltaDist i result coarsePos sideDist =
     (if i \<ge> u_maxSteps u then (result, 0)
      else
        (let result1 = result \<lparr> steps := i + 1 \<rparr>;
             brickIndex = getBrickIndex u coarsePos;
             (found, result2) =
               (if brickIndex \<noteq> 0
                then traceBrick R u brickIndex origin direction coarsePos result1
                else (False, result1))
         in if found then (result2, 1)
            else
              (let axis = ddaAxis sideDist;
                   sideDist' = ddaSide R axis sideDist deltaDist;
                   coarsePos' = ddaPos axis coarsePos step
               in if vx coarsePos' < 0 \<or> vx coarsePos' \<ge> f2i (vx (u_coarseGridSize u)) \<or>
                     vy coarsePos' < 0 \<or> vy coarsePos' \<ge> f2i (vy (u_coarseGridSize u)) \<or>
                     vz coarsePos' < 0 \<or> vz coarsePos' \<ge> f2i (vz (u_coarseGridSize u))
                  then (result2, 1)
                  else (let (r, k) = coarseLoop n R u origin direction step deltaDist (i + 1)
                                       result2 coarsePos' sideDist'
                        in (r, Suc k)))))"

text \<open>
  \<open>traceRay\<close>, with the number of iterations of its loop. The fields of \<open>HitResult\<close> that
  the source leaves unassigned until a hit (\<open>pos\<close>, \<open>color\<close>, \<open>distance\<close>) start as zeros
  here.
\<close>

definition initResult :: "rounding \<Rightarrow> HitResult" where
  "initResult R = \<lparr> hit = False, pos = splat (R 0), normal = splat (R 0),
                    color = (R 0, R 0, R 0, R 0), distance = R 0, steps = 0 \<rparr>"

definition traceRayRun :: "rounding \<Rightarrow> uniforms \<Rightarrow> vec3 \<Rightarrow> vec3 \<Rightarrow> HitResult \<times> nat" where
  "traceRayRun R u origin direction =
     (let result = initResult R;
          worldSize = getWorldSize R u;
          tBox = intersectAABB R origin direction (splat (R 0)) worldSize
      in if flt (snd tBox) (fst tBox) \<or> flt (snd tBox) (R 0) then (result, 0)
         else
           (let tStart = fadd R (fmax (R 0) (fst tBox)) (R (1/1000));
                startPos = vzip (fadd R) origin (vmap (\<lambda>d. fmul R d tStart) direction);
                coarseStart = vmap (\<lambda>c. fdiv R c (i2f R BRICK_SIZE)) startPos;
                coarsePos = vzip (\<lambda>c g. iclamp (f2i (ffloor c)) 0 (f2i g - 1))
                              coarseStart (u_coarseGridSize u);
                step = vmap (f2i \<circ> fsign) direction;
                deltaDist = deltaDistOf R (i2f R BRICK_SIZE) direction;
                sideDist = initSideDist R direction coarsePos coarseStart deltaDist
            in coarseLoop 512 R u origin direction step deltaDist 0 result coarsePos sideDist))"

definition traceRay :: "rounding \<Rightarrow> uniforms \<Rightarrow> vec3 \<Rightarrow> vec3 \<Rightarrow> HitResult" where
  "traceRay R u origin direction = fst (traceRayRun R u origin direction)"

definition coarseIterations :: "rounding \<Rightarrow> uniforms \<Rightarrow> vec3 \<Rightarrow> vec3 \<Rightarrow> nat" where
  "coarseIterations R u origin direction = snd (traceRayRun R u origin direction)"


text \<open>The rounding that rounds nothing, for evaluating the shader on concrete scenes.\<close>

definition exact :: rounding where
  "exact q = Fin q"

subsection \<open>Properties of results and of the arithmetic\<close>

definition alphaOf :: "vec4 \<Rightarrow> fl" where
  "alphaOf c = snd (snd (snd c))"

text \<open>
  The two shapes of a result of \<open>traceRay\<close>: a hit carries a voxel of positive alpha; a
  result without a hit is the initial result but for its step count.
\<close>

definition noHitShape :: "rounding \<Rightarrow> HitResult \<Rightarrow> bool" where
  "noHitShape R r \<longleftrightarrow>
     (if hit r then flt (R 0) (alphaOf (color r)) else r = (initResult R) \<lparr> steps := steps r \<rparr>)"









text \<open>A scene of \<open>4\<^sup>3\<close> coarse cells without a brick, with \<open>maxSteps = m\<close>.\<close>

definition emptyScene :: "int \<Rightarrow> uniforms" where
  "emptyScene m = \<lparr> u_coarseGrid = replicate 64 0, u_coarseGridDim = 4,
                    u_brickAtlas = [], u_brickAtlasDim = 512,
                    u_coarseGridSize = splat (Fin 4), u_atlasSize = splat (Fin 64),
                    u_maxSteps = m \<rparr>"

section \<open>Properties of the brick map\<close>

lemma ta_get_set: "ta_get (ta_set xs i v) j = (if i = j \<and> 0 \<le> i \<and> i < int (length xs) then Some v else ta_get xs j)"
  by (auto simp: ta_get_def ta_set_def nth_list_update)

lemma length_ta_set [simp]: "length (ta_set xs i v) = length xs"
  by (simp add: ta_set_def)

lemma length_ta_new [simp]: "length (ta_new n) = nat n"
  by (simp add: ta_new_def)

lemma ta_get_new: "ta_get (ta_new n :: ('a::zero) list) i = (if 0 \<le> i \<and> i < n then Some 0 else None)"
  by (auto simp: ta_get_def ta_new_def)

lemma radix3_bounds:
  fixes n :: int
  assumes "0 \<le> a" "a < n" "0 \<le> b" "b < n" "0 \<le> c" "c < n"
  shows "0 \<le> a + b * n + c * n * n" and "a + b * n + c * n * n < n * n * n"
proof -
  have n: "0 < n" using assms by linarith
  show "0 \<le> a + b * n + c * n * n" using assms n by simp
  have "b * n \<le> (n - 1) * n" using assms n by (intro mult_right_mono) auto
  moreover have "c * (n * n) \<le> (n - 1) * (n * n)" using assms n by (intro mult_right_mono) auto
  ultimately show "a + b * n + c * n * n < n * n * n" using assms by (simp add: algebra_simps)
qed

lemma radix3_inj:
  fixes n :: int
  assumes "0 \<le> a" "a < n" "0 \<le> b" "b < n" "0 \<le> a'" "a' < n" "0 \<le> b'" "b' < n"
    and eq: "a + b * n + c * n * n = a' + b' * n + c' * n * n"
  shows "a = a' \<and> b = b' \<and> c = c'"
proof -
  have e: "a + n * (b + n * c) = a' + n * (b' + n * c')" using eq by (simp add: algebra_simps)
  have "(a + n * (b + n * c)) mod n = a" using assms by simp
  moreover have "(a' + n * (b' + n * c')) mod n = a'" using assms by simp
  ultimately have 1: "a = a'" using e by simp
  have n: "n \<noteq> 0" using assms by auto
  from e 1 n have e2: "b + n * c = b' + n * c'" by simp
  have "(b + n * c) mod n = b" using assms by simp
  moreover have "(b' + n * c') mod n = b'" using assms by simp
  ultimately have 2: "b = b'" using e2 by simp
  from e2 2 n have "c = c'" by simp
  with 1 2 show ?thesis by simp
qed

lemma div_mod_bounds:
  fixes x :: int
  assumes "0 \<le> x" "x < c * m" "0 < m"
  shows "0 \<le> x div m" and "x div m < c" and "js_rem x m = x mod m"
    and "0 \<le> x mod m" and "x mod m < m"
proof -
  show "0 \<le> x div m" using assms by (simp add: div_int_pos_iff)
  have "m * (x div m) + x mod m = x" by simp
  moreover have "0 \<le> x mod m" using assms by simp
  ultimately have "m * (x div m) \<le> x" by linarith
  moreover have "x < m * c" using assms by (simp add: mult.commute)
  ultimately have "m * (x div m) < m * c" by linarith
  with assms show "x div m < c" by (simp only: mult_less_cancel_left_pos)
  show "js_rem x m = x mod m" using assms by (cases "x = 0") (simp_all add: js_rem_def)
  show "0 \<le> x mod m" "x mod m < m" using assms by simp_all
qed

lemma world_invD:
  assumes "world_inv w"
  shows "0 \<le> coarseSize w"
    and "coarseSize w * coarseSize w * coarseSize w < 2 ^ 32"
    and "worldSize w = coarseSize w * brickSize w"
    and "int (length (coarseGrid w)) = coarseSize w * coarseSize w * coarseSize w"
    and "atlasSize w = 64"
    and "nextBrickIndex w = brickCount w + 1"
    and "brickCount w = int (length (filter (\<lambda>c. c \<noteq> 0) (coarseGrid w)))"
    and "map fst (bricks w) = [1..brickCount w]"
    and "\<And>k d. map_of (bricks w) k = Some d \<Longrightarrow>
        int (length d) = brickSize w * brickSize w * brickSize w * 4"
    and "\<And>c. c \<in> set (coarseGrid w) \<Longrightarrow> uint c \<le> brickCount w"
    and "distinct (filter (\<lambda>c. c \<noteq> 0) (coarseGrid w))"
  using assms unfolding world_inv_def by blast+

lemma cube_nonneg: fixes c :: int assumes "0 \<le> c * c * c" shows "0 \<le> c"
proof (rule ccontr)
  assume "\<not> 0 \<le> c"
  then have "c < 0" by simp
  then have "0 < c * c" by (simp add: zero_less_mult_iff)
  with \<open>c < 0\<close> have "c * c * c < 0" by (simp add: mult_less_0_iff)
  with assms show False by simp
qed

lemma world_inv_new:
  assumes "new_BrickMapWorld cs bs = Some w" "cs * cs * cs < 2 ^ 32"
  shows "world_inv w"
proof -
  from assms(1) have c3: "0 \<le> cs * cs * cs" and w: "w = \<lparr> coarseSize = cs, brickSize = bs, worldSize = cs * bs,
                  coarseGrid = ta_new (cs * cs * cs), bricks = [], nextBrickIndex = 1,
                  atlasSize = 64, brickAtlasData = None, voxelCount = 0, brickCount = 0 \<rparr>"
    by (auto simp: new_BrickMapWorld_def split: if_splits)
  from c3 have "0 \<le> cs" by (rule cube_nonneg)
  with c3 assms(2) show ?thesis
    unfolding w world_inv_def by (simp add: ta_new_def)
qed

lemma world_inv_clear: "world_inv w \<Longrightarrow> world_inv (clear w)"
  unfolding world_inv_def clear_def by (simp add: filter_False)

lemma nz_update:
  "i < length g \<Longrightarrow> g ! i = 0 \<Longrightarrow> v \<noteq> 0 \<Longrightarrow>
   length (filter (\<lambda>c. c \<noteq> (0::'a::zero)) (g[i := v])) = Suc (length (filter (\<lambda>c. c \<noteq> 0) g))"
proof (induction g arbitrary: i)
  case Nil then show ?case by simp
next
  case (Cons x xs)
  then show ?case by (cases i) auto
qed

lemma distinct_nz_update:
  "i < length g \<Longrightarrow> g ! i = 0 \<Longrightarrow> v \<notin> set g \<Longrightarrow> distinct (filter (\<lambda>c. c \<noteq> (0::'a::zero)) g) \<Longrightarrow>
   distinct (filter (\<lambda>c. c \<noteq> 0) (g[i := v]))"
proof (induction g arbitrary: i)
  case Nil then show ?case by simp
next
  case (Cons x xs)
  show ?case
  proof (cases i)
    case 0
    with Cons.prems show ?thesis by auto
  next
    case (Suc j)
    with Cons.prems Cons.IH[of j] show ?thesis
      by (auto dest: set_update_subset_insert[THEN subsetD])
  qed
qed

lemma nz_less_length:
  "i < length g \<Longrightarrow> g ! i = (0::'a::zero) \<Longrightarrow> length (filter (\<lambda>c. c \<noteq> 0) g) < length g"
  by (rule length_filter_less[of "g ! i"]) (auto simp: in_set_conv_nth)


lemma inv_pos:
  assumes "world_inv w" "inBounds w x y z"
  shows "0 < coarseSize w" and "0 < brickSize w"
proof -
  from assms have c: "0 \<le> coarseSize w" and p: "0 < coarseSize w * brickSize w"
    by (auto simp: world_inv_def inBounds_def)
  from p c show "0 < coarseSize w" by (cases "coarseSize w = 0") auto
  with p show "0 < brickSize w" by (simp add: zero_less_mult_iff)
qed

lemma voxelCell_eq:
  assumes "world_inv w" "inBounds w x y z"
  shows "voxelCell w x y z = x div brickSize w + (y div brickSize w) * coarseSize w
            + (z div brickSize w) * coarseSize w * coarseSize w"
    and "0 \<le> voxelCell w x y z"
    and "voxelCell w x y z < int (length (coarseGrid w))"
proof -
  let ?B = "brickSize w" and ?C = "coarseSize w"
  have B: "0 < ?B" using assms by (rule inv_pos)
  have ws: "worldSize w = ?C * ?B" using assms by (simp add: world_inv_def)
  have x: "0 \<le> x div ?B" "x div ?B < ?C" and y: "0 \<le> y div ?B" "y div ?B < ?C"
    and z: "0 \<le> z div ?B" "z div ?B < ?C"
    using assms(2) B div_mod_bounds[of _ ?C ?B] by (simp_all add: inBounds_def ws)
  then show e: "voxelCell w x y z = x div ?B + (y div ?B) * ?C + (z div ?B) * ?C * ?C"
    by (simp add: voxelCell_def worldToCoarse_def getCoarseIndex_def js_floor_div_def)
  show "0 \<le> voxelCell w x y z" unfolding e using x y z by (rule radix3_bounds)
  have "voxelCell w x y z < ?C * ?C * ?C" unfolding e using x y z by (rule radix3_bounds)
  then show "voxelCell w x y z < int (length (coarseGrid w))"
    using assms(1) by (simp add: world_inv_def)
qed

lemma voxelSlot_eq:
  assumes "world_inv w" "inBounds w x y z"
  shows "voxelSlot w x y z = (x mod brickSize w + (y mod brickSize w) * brickSize w
            + (z mod brickSize w) * brickSize w * brickSize w) * 4"
    and "0 \<le> voxelSlot w x y z"
    and "voxelSlot w x y z + 3 < brickSize w * brickSize w * brickSize w * 4"
proof -
  let ?B = "brickSize w" and ?C = "coarseSize w"
  have B: "0 < ?B" using assms by (rule inv_pos)
  have ws: "worldSize w = ?C * ?B" using assms by (simp add: world_inv_def)
  have r: "js_rem x ?B = x mod ?B" "js_rem y ?B = y mod ?B" "js_rem z ?B = z mod ?B"
    using assms(2) B div_mod_bounds(3)[of _ ?C ?B] by (simp_all add: inBounds_def ws)
  show e: "voxelSlot w x y z = (x mod ?B + (y mod ?B) * ?B + (z mod ?B) * ?B * ?B) * 4"
    by (simp add: voxelSlot_def worldToLocal_def getBrickLocalIndex_def r)
  have b: "0 \<le> x mod ?B" "x mod ?B < ?B" "0 \<le> y mod ?B" "y mod ?B < ?B" "0 \<le> z mod ?B" "z mod ?B < ?B"
    using B by simp_all
  from radix3_bounds[OF b] show "0 \<le> voxelSlot w x y z" 
    "voxelSlot w x y z + 3 < ?B * ?B * ?B * 4" unfolding e by simp_all
qed

lemma uint_of_index:
  assumes "0 < n" "n < 2 ^ 32"
  shows "uint (word_of_int n :: 32 word) = n"
  using assms by (simp add: uint_word_of_int_eq take_bit_int_eq_self)

lemma map_of_upto_keys:
  assumes "map fst al = [1..n]" "1 \<le> k" "k \<le> n"
  shows "\<exists>d. map_of al k = Some d"
proof -
  have "k \<in> set (map fst al)" using assms by simp
  then have "k \<in> fst ` set al" by simp
  then show ?thesis by (metis domD dom_map_of_conv_image_fst)
qed


lemma length_writeVoxel [simp]: "length (writeVoxel d i r g b a) = length d"
  by (simp add: writeVoxel_def)

lemma setVoxel_unfold:
  assumes "inBounds w x y z"
  shows "setVoxel w x y z r g b a =
     (case getOrCreateBrick w (x div brickSize w) (y div brickSize w) (z div brickSize w) of
        (None, w') \<Rightarrow> (False, w')
      | (Some (key, brick), w') \<Rightarrow>
          (True, w' \<lparr> bricks := AList.update key
             (writeVoxel brick (getBrickLocalIndex w' (js_rem x (brickSize w)) (js_rem y (brickSize w)) (js_rem z (brickSize w))) r g b a) (bricks w') \<rparr>))"
  using assms
  by (simp add: setVoxel_def inBounds_def worldToCoarse_def worldToLocal_def js_floor_div_def
      writeVoxel_def Let_def split: prod.splits option.splits)

lemma getOrCreateBrick_unfold:
  assumes "world_inv w" "inBounds w x y z"
  shows "getOrCreateBrick w (x div brickSize w) (y div brickSize w) (z div brickSize w) =
     (let ci = voxelCell w x y z; cell = coarseGrid w ! nat ci in
      if cell = 0 then
        (let n = nextBrickIndex w;
             zs = ta_new (brickSize w * brickSize w * brickSize w * 4) in
          (Some (n, zs), w \<lparr> nextBrickIndex := n + 1,
                         coarseGrid := (coarseGrid w)[nat ci := word_of_int n],
                         bricks := AList.update n zs (bricks w),
                         brickCount := brickCount w + 1 \<rparr>))
      else (map_option (Pair (uint cell)) (map_of (bricks w) (uint cell)), w))"
proof -
  note c = voxelCell_eq[OF assms]
  have ci: "getCoarseIndex w (x div brickSize w) (y div brickSize w) (z div brickSize w) = voxelCell w x y z"
    by (simp add: voxelCell_def worldToCoarse_def js_floor_div_def)
  show ?thesis
    unfolding getOrCreateBrick_def ci using c(2,3)
    by (simp add: Let_def ta_get_def ta_set_def update_conv' uint_0_iff)
qed


lemma slot_eq:
  assumes "world_inv w" "inBounds w x y z" "brickSize w' = brickSize w"
  shows "getBrickLocalIndex w' (js_rem x (brickSize w)) (js_rem y (brickSize w)) (js_rem z (brickSize w))
         = voxelSlot w x y z"
  using assms(3) by (simp add: voxelSlot_def worldToLocal_def getBrickLocalIndex_def)

lemma setVoxel_new_cell:
  assumes "world_inv w" "inBounds w x y z" "coarseGrid w ! nat (voxelCell w x y z) = 0"
  shows "setVoxel w x y z r g b a =
     (True, w \<lparr> nextBrickIndex := nextBrickIndex w + 1,
                coarseGrid := (coarseGrid w)[nat (voxelCell w x y z) := word_of_int (nextBrickIndex w)],
                bricks := AList.update (nextBrickIndex w)
                   (writeVoxel (ta_new (brickSize w * brickSize w * brickSize w * 4))
                      (voxelSlot w x y z) r g b a) (bricks w),
                brickCount := brickCount w + 1 \<rparr>)"
  using assms(3)
  by (simp add: setVoxel_unfold[OF assms(2)] getOrCreateBrick_unfold[OF assms(1,2)] Let_def
      slot_eq[OF assms(1,2)])

lemma cell_brick:
  assumes "world_inv w" "i < length (coarseGrid w)" "coarseGrid w ! i \<noteq> 0"
  shows "1 \<le> uint (coarseGrid w ! i)" and "uint (coarseGrid w ! i) \<le> brickCount w"
    and "\<exists>d. map_of (bricks w) (uint (coarseGrid w ! i)) = Some d"
proof -
  have "uint (coarseGrid w ! i) \<noteq> 0" using assms(3) by (simp add: uint_0_iff)
  then show 1: "1 \<le> uint (coarseGrid w ! i)" using uint_ge_0[of "coarseGrid w ! i"] by linarith
  show 2: "uint (coarseGrid w ! i) \<le> brickCount w"
    using assms(2) by (intro world_invD(10)[OF assms(1)]) simp
  from assms(1) have "map fst (bricks w) = [1..brickCount w]" by (rule world_invD)
  from map_of_upto_keys[OF this 1 2]
  show "\<exists>d. map_of (bricks w) (uint (coarseGrid w ! i)) = Some d" .
qed

lemma setVoxel_old_cell:
  assumes "world_inv w" "inBounds w x y z" "coarseGrid w ! nat (voxelCell w x y z) \<noteq> 0"
    and "map_of (bricks w) (uint (coarseGrid w ! nat (voxelCell w x y z))) = Some d"
  shows "setVoxel w x y z r g b a =
     (True, w \<lparr> bricks := AList.update (uint (coarseGrid w ! nat (voxelCell w x y z)))
                   (writeVoxel d (voxelSlot w x y z) r g b a) (bricks w) \<rparr>)"
  using assms(3,4)
  by (simp add: setVoxel_unfold[OF assms(2)] getOrCreateBrick_unfold[OF assms(1,2)] Let_def
      slot_eq[OF assms(1,2)])

lemma world_inv_setVoxel_old:
  assumes "world_inv w" "map_of (bricks w) k = Some d" "length d' = length d"
  shows "world_inv (w \<lparr> bricks := AList.update k d' (bricks w) \<rparr>)"
proof -
  have "k \<in> fst ` set (bricks w)" using assms(2) by (meson domI dom_map_of_conv_image_fst[THEN equalityD1, THEN subsetD])
  then have "map fst (AList.update k d' (bricks w)) = map fst (bricks w)"
    by (simp add: update_keys)
  with assms show ?thesis
    unfolding world_inv_def by (auto simp: update_conv')
qed


lemma next_index_fits:
  assumes "world_inv w" "i < length (coarseGrid w)" "coarseGrid w ! i = 0"
  shows "0 < nextBrickIndex w" and "nextBrickIndex w < 2 ^ 32"
    and "uint (word_of_int (nextBrickIndex w) :: 32 word) = nextBrickIndex w"
    and "(word_of_int (nextBrickIndex w) :: 32 word) \<noteq> 0"
    and "(word_of_int (nextBrickIndex w) :: 32 word) \<notin> set (coarseGrid w)"
proof -
  note d = world_invD[OF assms(1)]
  have "length (filter (\<lambda>c. c \<noteq> 0) (coarseGrid w)) < length (coarseGrid w)"
    using assms(2,3) by (rule nz_less_length)
  then have "brickCount w < int (length (coarseGrid w))" using d(7) by simp
  then show 1: "0 < nextBrickIndex w" and 2: "nextBrickIndex w < 2 ^ 32"
    using d(2,4,6,7) by simp_all
  from 1 2 show 3: "uint (word_of_int (nextBrickIndex w) :: 32 word) = nextBrickIndex w"
    by (rule uint_of_index)
  show "(word_of_int (nextBrickIndex w) :: 32 word) \<noteq> 0"
  proof
    assume "(word_of_int (nextBrickIndex w) :: 32 word) = 0"
    then have "uint (word_of_int (nextBrickIndex w) :: 32 word) = 0" by simp
    with 3 1 show False by simp
  qed
  show "(word_of_int (nextBrickIndex w) :: 32 word) \<notin> set (coarseGrid w)"
  proof
    assume "(word_of_int (nextBrickIndex w) :: 32 word) \<in> set (coarseGrid w)"
    from d(10)[OF this] 3 d(6) show False by simp
  qed
qed

lemma world_inv_setVoxel_new:
  assumes "world_inv w" "i < length (coarseGrid w)" "coarseGrid w ! i = 0"
    and len: "int (length d') = brickSize w * brickSize w * brickSize w * 4"
  shows "world_inv (w \<lparr> nextBrickIndex := nextBrickIndex w + 1,
                coarseGrid := (coarseGrid w)[i := word_of_int (nextBrickIndex w)],
                bricks := AList.update (nextBrickIndex w) d' (bricks w),
                brickCount := brickCount w + 1 \<rparr>)"
proof -
  note d = world_invD[OF assms(1)]
  note n = next_index_fits[OF assms(1-3)]
  let ?n = "nextBrickIndex w"
  let ?v = "word_of_int ?n :: 32 word"
  let ?g = "(coarseGrid w)[i := ?v]"
  have bc: "0 \<le> brickCount w" using d(7) by simp
  have cnt: "int (length (filter (\<lambda>c. c \<noteq> 0) ?g)) = brickCount w + 1"
    using nz_update[OF assms(2,3) n(4)] d(7) by simp
  have "?n \<notin> set (map fst (bricks w))" unfolding d(8) using d(6) by simp
  then have keys: "map fst (AList.update ?n d' (bricks w)) = [1..brickCount w + 1]"
    using d(6,8) bc upto_rec2[of 1 "brickCount w + 1"] by (simp add: update_keys)
  have lens: "\<And>k d. map_of (AList.update ?n d' (bricks w)) k = Some d \<Longrightarrow>
        int (length d) = brickSize w * brickSize w * brickSize w * 4"
    using d(9) len by (auto simp: update_conv' split: if_splits)
  have le: "\<And>c. c \<in> set ?g \<Longrightarrow> uint c \<le> brickCount w + 1"
  proof -
    fix c assume "c \<in> set ?g"
    then have "c = ?v \<or> c \<in> set (coarseGrid w)"
      using set_update_subset_insert[of "coarseGrid w" i ?v] by auto
    then show "uint c \<le> brickCount w + 1"
      using n(3) d(6) d(10)[of c] by auto
  qed
  have dist: "distinct (filter (\<lambda>c. c \<noteq> 0) ?g)"
    using assms(2,3) n(5) d(11) by (rule distinct_nz_update)
  show ?thesis
    unfolding world_inv_def
    using d(1-6) cnt keys lens le dist by simp
qed

lemma world_inv_setVoxel:
  assumes "world_inv w"
  shows "world_inv (snd (setVoxel w x y z r g b a))"
proof (cases "inBounds w x y z")
  case False
  then show ?thesis using assms by (auto simp: setVoxel_def inBounds_def)
next
  case True
  note c = voxelCell_eq[OF assms True]
  let ?i = "nat (voxelCell w x y z)"
  have i: "?i < length (coarseGrid w)" using c(2,3) by simp
  have B: "0 < brickSize w" using assms True by (rule inv_pos)
  show ?thesis
  proof (cases "coarseGrid w ! ?i = 0")
    case z: True
    have "0 \<le> brickSize w * brickSize w * brickSize w * 4" using B by simp
    then have "int (length (writeVoxel (ta_new (brickSize w * brickSize w * brickSize w * 4) :: 8 word list)
                      (voxelSlot w x y z) r g b a)) = brickSize w * brickSize w * brickSize w * 4"
      by simp
    from world_inv_setVoxel_new[OF assms i z this] show ?thesis
      by (simp add: setVoxel_new_cell[OF assms True z])
  next
    case nz: False
    from cell_brick(3)[OF assms i nz] obtain d where
      d: "map_of (bricks w) (uint (coarseGrid w ! ?i)) = Some d" by blast
    have "length (writeVoxel d (voxelSlot w x y z) r g b a) = length d" by simp
    from world_inv_setVoxel_old[OF assms d this] show ?thesis
      by (simp add: setVoxel_old_cell[OF assms True nz d])
  qed
qed


lemma getVoxel_unfold:
  assumes "world_inv w" "inBounds w x y z"
  shows "getVoxel w x y z =
     (let cell = coarseGrid w ! nat (voxelCell w x y z) in
      if cell = 0 then Some emptyVoxel
      else map_option (\<lambda>d. readVoxel d (voxelSlot w x y z)) (map_of (bricks w) (uint cell)))"
proof -
  note c = voxelCell_eq[OF assms]
  have ci: "getCoarseIndex w (x div brickSize w) (y div brickSize w) (z div brickSize w) = voxelCell w x y z"
    by (simp add: voxelCell_def worldToCoarse_def js_floor_div_def)
  have sl: "getBrickLocalIndex w (js_rem x (brickSize w)) (js_rem y (brickSize w)) (js_rem z (brickSize w))
         = voxelSlot w x y z"
    by (simp add: voxelSlot_def worldToLocal_def)
  show ?thesis
    using assms(2) c(2,3)
    by (simp add: getVoxel_def inBounds_def worldToCoarse_def worldToLocal_def js_floor_div_def
        ci sl Let_def ta_get_def uint_0_iff emptyVoxel_def readVoxel_def split: option.splits)
qed

lemma uint_byte: "uint (word_of_int v :: 8 word) = v mod 256"
  by (simp add: uint_word_of_int_eq take_bit_eq_mod)

lemma ta_get_writeVoxel:
  "ta_get (writeVoxel d i r g b a) j =
    (if 0 \<le> j \<and> j < int (length d) then
       (if j = i then Some (word_of_int r) else if j = i + 1 then Some (word_of_int g)
        else if j = i + 2 then Some (word_of_int b) else if j = i + 3 then Some (word_of_int a)
        else ta_get d j)
     else None)"
  unfolding writeVoxel_def ta_get_set length_ta_set
  by (auto simp: ta_get_def)

lemma readVoxel_writeVoxel_same:
  assumes "0 \<le> i" "i + 3 < int (length d)"
  shows "readVoxel (writeVoxel d i r g b a) i =
     \<lparr> red = Some (r mod 256), green = Some (g mod 256), blue = Some (b mod 256),
       alpha = Some (a mod 256) \<rparr>"
  using assms by (simp add: readVoxel_def ta_get_writeVoxel uint_byte)

lemma readVoxel_writeVoxel_other:
  assumes "i + 3 < j \<or> j + 3 < i"
  shows "readVoxel (writeVoxel d i r g b a) j = readVoxel d j"
  using assms unfolding readVoxel_def ta_get_writeVoxel by (auto simp: ta_get_def)

lemma readVoxel_new:
  assumes "0 \<le> i" "i + 3 < n"
  shows "readVoxel (ta_new n) i = emptyVoxel"
  using assms by (simp add: readVoxel_def ta_get_new emptyVoxel_def)

lemma getOrCreateBrick_static:
  "coarseSize (snd (getOrCreateBrick w cx cy cz)) = coarseSize w"
  "brickSize (snd (getOrCreateBrick w cx cy cz)) = brickSize w"
  "worldSize (snd (getOrCreateBrick w cx cy cz)) = worldSize w"
  "atlasSize (snd (getOrCreateBrick w cx cy cz)) = atlasSize w"
  by (simp_all add: getOrCreateBrick_def Let_def split: option.splits)

lemma setVoxel_static:
  "coarseSize (snd (setVoxel w x y z r g b a)) = coarseSize w"
  "brickSize (snd (setVoxel w x y z r g b a)) = brickSize w"
  "worldSize (snd (setVoxel w x y z r g b a)) = worldSize w"
  "atlasSize (snd (setVoxel w x y z r g b a)) = atlasSize w"
proof -
  obtain ob w' where p: "getOrCreateBrick w (js_floor_div x (brickSize w))
      (js_floor_div y (brickSize w)) (js_floor_div z (brickSize w)) = (ob, w')"
    by (cases "getOrCreateBrick w (js_floor_div x (brickSize w))
      (js_floor_div y (brickSize w)) (js_floor_div z (brickSize w))")
  from getOrCreateBrick_static[of w "js_floor_div x (brickSize w)"
      "js_floor_div y (brickSize w)" "js_floor_div z (brickSize w)"] p
  have s: "coarseSize w' = coarseSize w" "brickSize w' = brickSize w"
    "worldSize w' = worldSize w" "atlasSize w' = atlasSize w" by simp_all
  show "coarseSize (snd (setVoxel w x y z r g b a)) = coarseSize w"
    "brickSize (snd (setVoxel w x y z r g b a)) = brickSize w"
    "worldSize (snd (setVoxel w x y z r g b a)) = worldSize w"
    "atlasSize (snd (setVoxel w x y z r g b a)) = atlasSize w"
    using p s
    by (simp_all add: setVoxel_def worldToCoarse_def worldToLocal_def Let_def split: option.splits)
qed

lemma inBounds_setVoxel [simp]: "inBounds (snd (setVoxel w x y z r g b a)) x' y' z' = inBounds w x' y' z'"
  by (simp add: inBounds_def setVoxel_static)


lemma distinct_filter_nth:
  "distinct (filter P xs) \<Longrightarrow> i < length xs \<Longrightarrow> j < length xs \<Longrightarrow> i \<noteq> j \<Longrightarrow>
   P (xs ! i) \<Longrightarrow> P (xs ! j) \<Longrightarrow> xs ! i \<noteq> xs ! j"
proof (induction xs arbitrary: i j)
  case Nil then show ?case by simp
next
  case (Cons x xs)
  show ?case
  proof (cases i)
    case i0: 0
    then obtain j' where j: "j = Suc j'" using Cons.prems(4) by (cases j) auto
    with Cons.prems i0 have "x \<notin> set (filter P xs)" "xs ! j' \<in> set (filter P xs)" by auto
    with i0 j show ?thesis by auto
  next
    case (Suc i')
    show ?thesis
    proof (cases j)
      case j0: 0
      with Cons.prems Suc have "x \<notin> set (filter P xs)" "xs ! i' \<in> set (filter P xs)" by auto
      with j0 Suc show ?thesis by auto
    next
      case (Suc j')
      with Cons.prems \<open>i = Suc i'\<close> Cons.IH[of i' j'] show ?thesis by (auto split: if_splits)
    qed
  qed
qed

lemma cell_slot_inj:
  assumes "world_inv w" "inBounds w x y z" "inBounds w x' y' z'"
    and "voxelCell w x y z = voxelCell w x' y' z'"
    and "(x, y, z) \<noteq> (x', y', z')"
  shows "voxelSlot w x y z + 3 < voxelSlot w x' y' z' \<or> voxelSlot w x' y' z' + 3 < voxelSlot w x y z"
proof -
  let ?B = "brickSize w" and ?C = "coarseSize w"
  have B: "0 < ?B" using assms(1,2) by (rule inv_pos)
  have ws: "worldSize w = ?C * ?B" using assms(1) by (rule world_invD)
  have dv: "0 \<le> x div ?B" "x div ?B < ?C" "0 \<le> y div ?B" "y div ?B < ?C"
    "0 \<le> x' div ?B" "x' div ?B < ?C" "0 \<le> y' div ?B" "y' div ?B < ?C"
    using assms(2,3) B div_mod_bounds[of _ ?C ?B] by (simp_all add: inBounds_def ws)
  from assms(4) have "x div ?B + (y div ?B) * ?C + (z div ?B) * ?C * ?C
      = x' div ?B + (y' div ?B) * ?C + (z' div ?B) * ?C * ?C"
    by (simp only: voxelCell_eq(1)[OF assms(1,2)] voxelCell_eq(1)[OF assms(1,3)])
  from radix3_inj[OF dv this]
  have cells: "x div ?B = x' div ?B" "y div ?B = y' div ?B" "z div ?B = z' div ?B" by simp_all
  have md: "0 \<le> x mod ?B" "x mod ?B < ?B" "0 \<le> y mod ?B" "y mod ?B < ?B"
    "0 \<le> x' mod ?B" "x' mod ?B < ?B" "0 \<le> y' mod ?B" "y' mod ?B < ?B"
    using B by simp_all
  have ne: "x mod ?B + (y mod ?B) * ?B + (z mod ?B) * ?B * ?B
      \<noteq> x' mod ?B + (y' mod ?B) * ?B + (z' mod ?B) * ?B * ?B"
  proof
    assume "x mod ?B + (y mod ?B) * ?B + (z mod ?B) * ?B * ?B
      = x' mod ?B + (y' mod ?B) * ?B + (z' mod ?B) * ?B * ?B"
    from radix3_inj[OF md this]
    have "x mod ?B = x' mod ?B" "y mod ?B = y' mod ?B" "z mod ?B = z' mod ?B" by simp_all
    with cells have "x = x'" "y = y'" "z = z'"
      by (metis mult_div_mod_eq)+
    with assms(5) show False by simp
  qed
  have sep: "\<And>m n :: int. m \<noteq> n \<Longrightarrow> m * 4 + 3 < n * 4 \<or> n * 4 + 3 < m * 4" by arith
  show ?thesis
    unfolding voxelSlot_eq(1)[OF assms(1,2)] voxelSlot_eq(1)[OF assms(1,3)]
    using ne by (rule sep)
qed


lemma voxelCell_cong:
  "coarseSize w' = coarseSize w \<Longrightarrow> brickSize w' = brickSize w \<Longrightarrow>
   voxelCell w' x y z = voxelCell w x y z"
  by (simp add: voxelCell_def worldToCoarse_def getCoarseIndex_def)

lemma voxelSlot_cong:
  "brickSize w' = brickSize w \<Longrightarrow> voxelSlot w' x y z = voxelSlot w x y z"
  by (simp add: voxelSlot_def worldToLocal_def getBrickLocalIndex_def)

lemma voxelCell_setVoxel [simp]:
  "voxelCell (snd (setVoxel w x y z r g b a)) x' y' z' = voxelCell w x' y' z'"
  by (rule voxelCell_cong) (simp_all add: setVoxel_static)

lemma voxelSlot_setVoxel [simp]:
  "voxelSlot (snd (setVoxel w x y z r g b a)) x' y' z' = voxelSlot w x' y' z'"
  by (rule voxelSlot_cong) (simp_all add: setVoxel_static)

lemma getVoxel_setVoxel_same:
  assumes "world_inv w" "inBounds w x y z"
  shows "fst (setVoxel w x y z r g b a)"
    and "getVoxel (snd (setVoxel w x y z r g b a)) x y z =
      Some \<lparr> red = Some (r mod 256), green = Some (g mod 256), blue = Some (b mod 256),
             alpha = Some (a mod 256) \<rparr>"
proof -
  let ?w' = "snd (setVoxel w x y z r g b a)"
  let ?i = "nat (voxelCell w x y z)" and ?s = "voxelSlot w x y z"
  note c = voxelCell_eq[OF assms] and sl = voxelSlot_eq[OF assms]
  have i: "?i < length (coarseGrid w)" using c(2,3) by simp
  have inv': "world_inv ?w'" using assms(1) by (rule world_inv_setVoxel)
  have inb': "inBounds ?w' x y z" using assms(2) by simp
  have B: "0 < brickSize w" using assms by (rule inv_pos)
  have g: "getVoxel ?w' x y z =
     (let cell = coarseGrid ?w' ! ?i in
      if cell = 0 then Some emptyVoxel
      else map_option (\<lambda>d. readVoxel d ?s) (map_of (bricks ?w') (uint cell)))"
    by (simp only: getVoxel_unfold[OF inv' inb'] voxelCell_setVoxel voxelSlot_setVoxel)
  have "fst (setVoxel w x y z r g b a) \<and> getVoxel ?w' x y z =
      Some \<lparr> red = Some (r mod 256), green = Some (g mod 256), blue = Some (b mod 256),
             alpha = Some (a mod 256) \<rparr>"
  proof (cases "coarseGrid w ! ?i = 0")
    case z: True
    note n = next_index_fits[OF assms(1) i z]
    let ?zs = "ta_new (brickSize w * brickSize w * brickSize w * 4) :: 8 word list"
    have "?s + 3 < int (length ?zs)" using sl(3) B by simp
    from readVoxel_writeVoxel_same[OF sl(2) this]
    show ?thesis
      unfolding g using i n(3,4)
      by (simp add: setVoxel_new_cell[OF assms z] update_conv')
  next
    case nz: False
    from cell_brick(3)[OF assms(1) i nz] obtain d where
      d: "map_of (bricks w) (uint (coarseGrid w ! ?i)) = Some d" by blast
    have "?s + 3 < int (length d)" using sl(3) world_invD(9)[OF assms(1) d] by simp
    from readVoxel_writeVoxel_same[OF sl(2) this]
    show ?thesis
      unfolding g using nz
      by (simp add: setVoxel_old_cell[OF assms nz d] update_conv')
  qed
  then show "fst (setVoxel w x y z r g b a)"
    and "getVoxel (snd (setVoxel w x y z r g b a)) x y z =
      Some \<lparr> red = Some (r mod 256), green = Some (g mod 256), blue = Some (b mod 256),
             alpha = Some (a mod 256) \<rparr>" by simp_all
qed

lemma getVoxel_setVoxel_other:
  assumes "world_inv w" "inBounds w x y z" "inBounds w x' y' z'" "(x, y, z) \<noteq> (x', y', z')"
  shows "getVoxel (snd (setVoxel w x y z r g b a)) x' y' z' = getVoxel w x' y' z'"
proof -
  let ?w' = "snd (setVoxel w x y z r g b a)"
  let ?i = "nat (voxelCell w x y z)" and ?s = "voxelSlot w x y z"
  let ?j = "nat (voxelCell w x' y' z')" and ?t = "voxelSlot w x' y' z'"
  note c = voxelCell_eq[OF assms(1,2)] and sl = voxelSlot_eq[OF assms(1,2)]
  note c' = voxelCell_eq[OF assms(1,3)] and sl' = voxelSlot_eq[OF assms(1,3)]
  have i: "?i < length (coarseGrid w)" using c(2,3) by simp
  have j: "?j < length (coarseGrid w)" using c'(2,3) by simp
  have inv': "world_inv ?w'" using assms(1) by (rule world_inv_setVoxel)
  have inb': "inBounds ?w' x' y' z'" using assms(3) by simp
  have B: "0 < brickSize w" using assms(1,2) by (rule inv_pos)
  have g': "getVoxel ?w' x' y' z' =
     (let cell = coarseGrid ?w' ! ?j in
      if cell = 0 then Some emptyVoxel
      else map_option (\<lambda>d. readVoxel d ?t) (map_of (bricks ?w') (uint cell)))"
    by (simp only: getVoxel_unfold[OF inv' inb'] voxelCell_setVoxel voxelSlot_setVoxel)
  note g = getVoxel_unfold[OF assms(1,3)]
  have sep: "?i = ?j \<Longrightarrow> ?s + 3 < ?t \<or> ?t + 3 < ?s"
    using cell_slot_inj[OF assms(1,2,3) _ assms(4)] c(2) c'(2) by simp
  show ?thesis
  proof (cases "coarseGrid w ! ?i = 0")
    case z: True
    note n = next_index_fits[OF assms(1) i z]
    let ?zs = "ta_new (brickSize w * brickSize w * brickSize w * 4) :: 8 word list"
    show ?thesis
    proof (cases "?i = ?j")
      case True
      have "readVoxel (writeVoxel ?zs ?s r g b a) ?t = readVoxel ?zs ?t"
        using sep[OF True] by (rule readVoxel_writeVoxel_other)
      also have "\<dots> = emptyVoxel" using sl'(2,3) by (rule readVoxel_new)
      finally show ?thesis
        unfolding g g' using True i n(3,4) z
        by (simp add: setVoxel_new_cell[OF assms(1,2) z] update_conv' Let_def)
    next
      case False
      have "uint (coarseGrid w ! ?j) \<noteq> nextBrickIndex w"
        using world_invD(10)[OF assms(1), of "coarseGrid w ! ?j"] j world_invD(6)[OF assms(1)]
        by simp
      then show ?thesis
        unfolding g g' using False
        by (simp add: setVoxel_new_cell[OF assms(1,2) z] update_conv' Let_def)
    qed
  next
    case nz: False
    from cell_brick(3)[OF assms(1) i nz] obtain d where
      d: "map_of (bricks w) (uint (coarseGrid w ! ?i)) = Some d" by blast
    show ?thesis
    proof (cases "?i = ?j")
      case True
      have "readVoxel (writeVoxel d ?s r g b a) ?t = readVoxel d ?t"
        using sep[OF True] by (rule readVoxel_writeVoxel_other)
      then show ?thesis
        unfolding g g' using True nz d
        by (simp add: setVoxel_old_cell[OF assms(1,2) nz d] update_conv' Let_def)
    next
      case False
      have "coarseGrid w ! ?j \<noteq> 0 \<Longrightarrow> uint (coarseGrid w ! ?j) \<noteq> uint (coarseGrid w ! ?i)"
        using distinct_filter_nth[OF world_invD(11)[OF assms(1)] i j False] nz
        by (auto simp: word_uint_eq_iff)
      then show ?thesis
        unfolding g g'
        by (auto simp add: setVoxel_old_cell[OF assms(1,2) nz d] update_conv' Let_def)
    qed
  qed
qed

section \<open>The claims about the brick map\<close>

lemma world_inv_cong:
  assumes "coarseSize w' = coarseSize w" "brickSize w' = brickSize w" "worldSize w' = worldSize w"
    "coarseGrid w' = coarseGrid w" "bricks w' = bricks w" "nextBrickIndex w' = nextBrickIndex w"
    "atlasSize w' = atlasSize w" "brickCount w' = brickCount w"
  shows "world_inv w' = world_inv w"
  unfolding world_inv_def assms ..

lemma world_inv_apply_call: "world_inv w \<Longrightarrow> world_inv (apply_call w c)"
proof (cases c)
  case (SetVoxel x y z r g b a)
  assume "world_inv w"
  then show ?thesis unfolding SetVoxel apply_call.simps by (rule world_inv_setVoxel)
next
  case Clear
  assume "world_inv w"
  then show ?thesis unfolding Clear apply_call.simps by (rule world_inv_clear)
next
  case CountVoxels
  assume "world_inv w"
  moreover have "world_inv (countVoxels w) = world_inv w"
    by (rule world_inv_cong) (simp_all add: countVoxels_def)
  ultimately show ?thesis unfolding CountVoxels by simp
next
  case BuildAtlas
  assume "world_inv w"
  moreover have "\<And>w'. buildAtlas w = Some w' \<Longrightarrow> world_inv w' = world_inv w"
    by (rule world_inv_cong) (auto simp: buildAtlas_def Let_def split: if_splits)
  ultimately show ?thesis unfolding BuildAtlas by (simp split: option.splits)
qed

lemma world_inv_run: "world_inv w \<Longrightarrow> world_inv (run w cs)"
  unfolding run_def by (induction cs arbitrary: w) (simp_all add: world_inv_apply_call)

lemma world_inv_reach:
  assumes "new_BrickMapWorld cs bs = Some w0" "cs * cs * cs < 2 ^ 32"
  shows "world_inv (run w0 calls)"
  using world_inv_new[OF assms] by (rule world_inv_run)

text \<open>
  Claim C2. In a world built by the constructor and any sequence of calls, for every
  coordinate inside \<open>[0, worldSize)\<^sup>3\<close> and every record with channels in \<open>0..255\<close> and
  \<open>a > 0\<close>, \<open>setVoxel\<close> succeeds and \<open>getVoxel\<close> at the same coordinate then returns exactly
  the record written.
\<close>

theorem setVoxel_getVoxel_roundtrip:
  assumes "new_BrickMapWorld cs bs = Some w0" and "cs * cs * cs < 2 ^ 32"
    and "w = run w0 calls"
    and "inBounds w x y z"
    and "0 \<le> r" "r \<le> 255" "0 \<le> g" "g \<le> 255" "0 \<le> b" "b \<le> 255" "0 < a" "a \<le> 255"
  shows "fst (setVoxel w x y z r g b a) \<and>
         getVoxel (snd (setVoxel w x y z r g b a)) x y z =
           Some \<lparr> red = Some r, green = Some g, blue = Some b, alpha = Some a \<rparr>"
proof -
  have inv: "world_inv w" unfolding assms(3) using assms(1,2) by (rule world_inv_reach)
  from getVoxel_setVoxel_same[OF inv assms(4), of r g b a] assms(5-)
  show ?thesis by simp
qed

theorem setVoxel_getVoxel_roundtrip_witness:
  "new_BrickMapWorld 2 1 = Some (the (new_BrickMapWorld 2 1)) \<and> (2::int) * 2 * 2 < 2 ^ 32 \<and>
   inBounds (run (the (new_BrickMapWorld 2 1)) [SetVoxel 0 0 0 1 2 3 4]) 1 0 1 \<and>
   fst (setVoxel (run (the (new_BrickMapWorld 2 1)) [SetVoxel 0 0 0 1 2 3 4]) 1 0 1 10 20 30 255) \<and>
   getVoxel (snd (setVoxel (run (the (new_BrickMapWorld 2 1)) [SetVoxel 0 0 0 1 2 3 4]) 1 0 1 10 20 30 255)) 1 0 1 =
           Some \<lparr> red = Some 10, green = Some 20, blue = Some 30, alpha = Some 255 \<rparr>"
proof -
  have n: "new_BrickMapWorld 2 1 = Some (the (new_BrickMapWorld 2 1))"
    by (simp add: new_BrickMapWorld_def)
  have i: "inBounds (run (the (new_BrickMapWorld 2 1)) [SetVoxel 0 0 0 1 2 3 4]) 1 0 1"
    by (simp add: run_def new_BrickMapWorld_def inBounds_def setVoxel_static)
  from setVoxel_getVoxel_roundtrip[OF n _ refl i, of 10 20 30 255] n i show ?thesis by simp
qed

lemma setVoxel_outside:
  assumes "\<not> inBounds w x y z"
  shows "setVoxel w x y z r g b a = (False, w)"
  using assms by (auto simp: setVoxel_def inBounds_def)

text \<open>
  Claim C6. For every coordinate with a component outside \<open>[0, worldSize)\<close>, \<open>setVoxel\<close>
  returns false and the world after the call is the world before it, field by field
  (coarse grid, bricks, counters, index allocator). The model has no exception branch on
  this path because the source only compares numbers before it returns.
\<close>

theorem setVoxel_out_of_bounds_rejected:
  assumes "\<not> inBounds w x y z"
  shows "setVoxel w x y z r g b a = (False, w)"
  using assms by (rule setVoxel_outside)

theorem setVoxel_out_of_bounds_rejected_witness:
  "\<not> inBounds (the (new_BrickMapWorld 2 8)) 16 0 (- 1) \<and>
   setVoxel (the (new_BrickMapWorld 2 8)) 16 0 (- 1) 1 2 3 4 = (False, the (new_BrickMapWorld 2 8))"
proof -
  have "\<not> inBounds (the (new_BrickMapWorld 2 8)) 16 0 (- 1)"
    by (simp add: new_BrickMapWorld_def inBounds_def)
  with setVoxel_out_of_bounds_rejected[OF this] show ?thesis by simp
qed

text \<open>
  Claim C10. For every in-bounds coordinate and arbitrary integer channel arguments,
  \<open>setVoxel\<close> stores each channel reduced modulo 256, so \<open>getVoxel\<close> then returns the
  arguments modulo 256; the record read equals the record written exactly when every
  channel argument is in \<open>0..255\<close>.
\<close>

theorem setVoxel_stores_mod_256:
  assumes "new_BrickMapWorld cs bs = Some w0" and "cs * cs * cs < 2 ^ 32"
    and "w = run w0 calls"
    and "inBounds w x y z"
  shows "getVoxel (snd (setVoxel w x y z r g b a)) x y z =
           Some \<lparr> red = Some (r mod 256), green = Some (g mod 256), blue = Some (b mod 256),
                  alpha = Some (a mod 256) \<rparr> \<and>
         (getVoxel (snd (setVoxel w x y z r g b a)) x y z =
            Some \<lparr> red = Some r, green = Some g, blue = Some b, alpha = Some a \<rparr>
          \<longleftrightarrow> 0 \<le> r \<and> r \<le> 255 \<and> 0 \<le> g \<and> g \<le> 255 \<and> 0 \<le> b \<and> b \<le> 255 \<and> 0 \<le> a \<and> a \<le> 255)"
proof -
  have inv: "world_inv w" unfolding assms(3) using assms(1,2) by (rule world_inv_reach)
  have m: "v mod 256 = v \<longleftrightarrow> 0 \<le> v \<and> v \<le> 255" for v :: int
  proof
    assume e: "v mod 256 = v"
    have "0 \<le> v mod 256" "v mod 256 < 256" by simp_all
    with e show "0 \<le> v \<and> v \<le> 255" by simp
  next
    assume "0 \<le> v \<and> v \<le> 255"
    then show "v mod 256 = v" by simp
  qed
  show ?thesis
    unfolding getVoxel_setVoxel_same(2)[OF inv assms(4)] by (simp add: m) 
qed


theorem setVoxel_stores_mod_256_witness:
  "new_BrickMapWorld 2 1 = Some (the (new_BrickMapWorld 2 1)) \<and> (2::int) * 2 * 2 < 2 ^ 32 \<and>
   inBounds (run (the (new_BrickMapWorld 2 1)) []) 1 0 1 \<and>
   getVoxel (snd (setVoxel (run (the (new_BrickMapWorld 2 1)) []) 1 0 1 256 (- 1) 300 511)) 1 0 1 =
     Some \<lparr> red = Some 0, green = Some 255, blue = Some 44, alpha = Some 255 \<rparr>"
proof -
  have n: "new_BrickMapWorld 2 1 = Some (the (new_BrickMapWorld 2 1))"
    by (simp add: new_BrickMapWorld_def)
  have i: "inBounds (run (the (new_BrickMapWorld 2 1)) []) 1 0 1"
    by (simp add: run_def new_BrickMapWorld_def inBounds_def)
  from setVoxel_stores_mod_256[OF n _ refl i, of 256 "- 1" 300 511] n i show ?thesis by simp
qed

lemma getVoxel_zero_cell:
  assumes "inBounds w x y z" "ta_get (coarseGrid w) (voxelCell w x y z) = Some 0"
  shows "getVoxel w x y z = Some emptyVoxel"
proof -
  have "0 \<le> voxelCell w x y z" using assms(2) by (auto simp: ta_get_def split: if_splits)
  with assms show ?thesis
    by (auto simp add: getVoxel_def inBounds_def voxelCell_def emptyVoxel_def Let_def
        split: prod.splits)
qed

lemma getVoxel_cong:
  assumes "coarseSize w' = coarseSize w" "brickSize w' = brickSize w" "worldSize w' = worldSize w"
    "coarseGrid w' = coarseGrid w" "bricks w' = bricks w"
  shows "getVoxel w' x y z = getVoxel w x y z"
  unfolding getVoxel_def worldToCoarse_def worldToLocal_def getCoarseIndex_def
    getBrickLocalIndex_def assms ..

lemma apply_call_static:
  "coarseSize (apply_call w c) = coarseSize w"
  "brickSize (apply_call w c) = brickSize w"
  "worldSize (apply_call w c) = worldSize w"
  "atlasSize (apply_call w c) = atlasSize w"
  by (cases c; auto simp: setVoxel_static clear_def countVoxels_def buildAtlas_def Let_def
      split: option.splits if_splits)+

lemma run_static:
  "coarseSize (run w cs) = coarseSize w"
  "brickSize (run w cs) = brickSize w"
  "worldSize (run w cs) = worldSize w"
  "atlasSize (run w cs) = atlasSize w"
  unfolding run_def by (induction cs arbitrary: w; simp add: apply_call_static)+

lemma inBounds_cong: "worldSize w' = worldSize w \<Longrightarrow> inBounds w' x y z = inBounds w x y z"
  by (simp add: inBounds_def)

lemma getVoxel_clear:
  assumes "world_inv w" "inBounds w x y z"
  shows "getVoxel (clear w) x y z = Some emptyVoxel"
proof -
  have inv: "world_inv (clear w)" using assms(1) by (rule world_inv_clear)
  have inb: "inBounds (clear w) x y z" using assms(2) by (simp add: inBounds_def clear_def)
  note c = voxelCell_eq[OF inv inb]
  have "coarseGrid (clear w) ! nat (voxelCell (clear w) x y z) = 0"
    using c(2,3) by (simp add: clear_def)
  then show ?thesis using c(2,3) by (intro getVoxel_zero_cell[OF inb]) (simp add: ta_get_def)
qed

lemma getVoxel_new:
  assumes "new_BrickMapWorld cs bs = Some w" "cs * cs * cs < 2 ^ 32" "inBounds w x y z"
  shows "getVoxel w x y z = Some emptyVoxel"
proof -
  have inv: "world_inv w" using assms(1,2) by (rule world_inv_new)
  note c = voxelCell_eq[OF inv assms(3)]
  have "coarseGrid w = ta_new (cs * cs * cs)"
    using assms(1) by (auto simp: new_BrickMapWorld_def split: if_splits)
  then have "coarseGrid w ! nat (voxelCell w x y z) = 0"
    using c(2,3) by (auto simp add: ta_new_def split: if_splits)
  then show ?thesis using c(2,3) by (intro getVoxel_zero_cell[OF assms(3)]) (simp add: ta_get_def)
qed

lemma getVoxel_apply_call_unwritten:
  assumes "world_inv w" "inBounds w x y z" "\<not> writes c x y z"
    and "getVoxel w x y z = Some emptyVoxel"
  shows "getVoxel (apply_call w c) x y z = Some emptyVoxel"
proof (cases c)
  case (SetVoxel x' y' z' r g b a)
  show ?thesis
  proof (cases "inBounds w x' y' z'")
    case True
    have "(x', y', z') \<noteq> (x, y, z)" using assms(3) by (auto simp: writes_def SetVoxel)
    from getVoxel_setVoxel_other[OF assms(1) True assms(2) this] assms(4)
    show ?thesis by (simp add: SetVoxel)
  next
    case False
    then show ?thesis using assms(4) by (simp add: SetVoxel setVoxel_outside)
  qed
next
  case Clear
  then show ?thesis using getVoxel_clear[OF assms(1,2)] by simp
next
  case CountVoxels
  have "getVoxel (countVoxels w) x y z = getVoxel w x y z"
    by (rule getVoxel_cong) (simp_all add: countVoxels_def)
  then show ?thesis using assms(4) by (simp add: CountVoxels)
next
  case BuildAtlas
  have "\<And>w'. buildAtlas w = Some w' \<Longrightarrow> getVoxel w' x y z = getVoxel w x y z"
    by (rule getVoxel_cong) (auto simp: buildAtlas_def Let_def split: if_splits)
  then show ?thesis using assms(4) by (simp add: BuildAtlas split: option.splits)
qed

lemma getVoxel_run_unwritten:
  assumes "world_inv w" "inBounds w x y z" "\<forall>c \<in> set cs. \<not> writes c x y z"
    and "getVoxel w x y z = Some emptyVoxel"
  shows "getVoxel (run w cs) x y z = Some emptyVoxel"
  using assms
proof (induction cs arbitrary: w)
  case Nil
  then show ?case by (simp add: run_def)
next
  case (Cons c cs)
  have 1: "world_inv (apply_call w c)" using Cons.prems(1) by (rule world_inv_apply_call)
  have 2: "inBounds (apply_call w c) x y z"
    using Cons.prems(2) by (simp add: inBounds_def apply_call_static)
  have 3: "getVoxel (apply_call w c) x y z = Some emptyVoxel"
    using Cons.prems by (intro getVoxel_apply_call_unwritten[of w x y z c]) simp_all
  from Cons.IH[OF 1 2 _ 3] Cons.prems(3) show ?case by (simp add: run_def)
qed

lemma run_append: "run w (xs @ ys) = run (run w xs) ys"
  by (simp add: run_def)

lemma run_snoc_Clear: "pre \<noteq> [] \<Longrightarrow> last pre = Clear \<Longrightarrow> run w pre = clear (run w (butlast pre))"
proof -
  assume "pre \<noteq> []" "last pre = Clear"
  then have "pre = butlast pre @ [Clear]" by (metis append_butlast_last_id)
  then have "run w pre = run w (butlast pre @ [Clear])" by simp
  then show ?thesis by (simp add: run_def)
qed

text \<open>
  Claim C7. For every in-bounds coordinate whose coarse cell holds index 0, \<open>getVoxel\<close>
  returns the record \<open>(0, 0, 0, 0)\<close>; and so it does for every in-bounds coordinate that no
  \<open>setVoxel\<close> call has written since the constructor or since the last \<open>clear\<close>.
  \<open>getVoxel\<close> assigns nothing in the source, so its model returns the record only: the
  world is the same before and after the read.
\<close>

theorem getVoxel_unallocated_empty:
  assumes "inBounds w x y z"
  shows "(ta_get (coarseGrid w) (voxelCell w x y z) = Some 0 \<longrightarrow> getVoxel w x y z = Some emptyVoxel) \<and>
         (\<forall>cs bs w0 pre post.
            new_BrickMapWorld cs bs = Some w0 \<and> cs * cs * cs < 2 ^ 32 \<and>
            (pre = [] \<or> last pre = Clear) \<and> (\<forall>c \<in> set post. \<not> writes c x y z) \<and>
            w = run w0 (pre @ post)
            \<longrightarrow> getVoxel w x y z = Some emptyVoxel)"
proof (intro conjI impI allI)
  assume "ta_get (coarseGrid w) (voxelCell w x y z) = Some 0"
  with assms show "getVoxel w x y z = Some emptyVoxel" by (rule getVoxel_zero_cell)
next
  fix cs bs w0 pre post
  assume h: "new_BrickMapWorld cs bs = Some w0 \<and> cs * cs * cs < 2 ^ 32 \<and>
            (pre = [] \<or> last pre = Clear) \<and> (\<forall>c \<in> set post. \<not> writes c x y z) \<and>
            w = run w0 (pre @ post)"
  let ?w1 = "run w0 pre"
  have inv0: "world_inv w0" using h by (auto intro: world_inv_new)
  have inv1: "world_inv ?w1" using inv0 by (rule world_inv_run)
  have w: "w = run ?w1 post" using h by (simp add: run_append)
  have inb0: "inBounds w0 x y z" using assms unfolding w by (simp add: inBounds_def run_static)
  have inb1: "inBounds ?w1 x y z" using inb0 by (simp add: inBounds_def run_static)
  have "getVoxel ?w1 x y z = Some emptyVoxel"
  proof (cases "pre = []")
    case True
    then show ?thesis using getVoxel_new[of cs bs w0 x y z] h inb0 by (simp add: run_def)
  next
    case False
    with h have e: "?w1 = clear (run w0 (butlast pre))" by (auto intro: run_snoc_Clear)
    have "world_inv (run w0 (butlast pre))" using inv0 by (rule world_inv_run)
    moreover have "inBounds (run w0 (butlast pre)) x y z"
      using inb0 by (simp add: inBounds_def run_static)
    ultimately show ?thesis unfolding e by (rule getVoxel_clear)
  qed
  moreover have "\<forall>c \<in> set post. \<not> writes c x y z" using h by simp
  ultimately have "getVoxel (run ?w1 post) x y z = Some emptyVoxel"
    by (rule getVoxel_run_unwritten[OF inv1 inb1, rotated])
  then show "getVoxel w x y z = Some emptyVoxel" by (simp only: w)
qed


lemmas eval_defs = run_def new_BrickMapWorld_def setVoxel_def getOrCreateBrick_def getCoarseIndex_def
  worldToCoarse_def worldToLocal_def getBrickLocalIndex_def js_rem_def js_floor_div_def ta_get_def
  ta_set_def ta_new_def clear_def inBounds_def voxelCell_def Let_def

theorem getVoxel_unallocated_empty_witness:
  "inBounds (run (the (new_BrickMapWorld 2 1)) ([SetVoxel 0 0 0 9 9 9 9, Clear] @ [SetVoxel 1 0 0 1 2 3 4])) 0 0 0 \<and>
   ta_get (coarseGrid (run (the (new_BrickMapWorld 2 1)) ([SetVoxel 0 0 0 9 9 9 9, Clear] @ [SetVoxel 1 0 0 1 2 3 4])))
     (voxelCell (run (the (new_BrickMapWorld 2 1)) ([SetVoxel 0 0 0 9 9 9 9, Clear] @ [SetVoxel 1 0 0 1 2 3 4])) 0 0 0) = Some 0 \<and>
   new_BrickMapWorld 2 1 = Some (the (new_BrickMapWorld 2 1)) \<and> (2::int) * 2 * 2 < 2 ^ 32 \<and>
   last [SetVoxel 0 0 0 9 9 9 9, Clear] = Clear \<and>
   \<not> writes (SetVoxel 1 0 0 1 2 3 4) 0 0 0 \<and>
   getVoxel (run (the (new_BrickMapWorld 2 1)) ([SetVoxel 0 0 0 9 9 9 9, Clear] @ [SetVoxel 1 0 0 1 2 3 4])) 0 0 0
     = Some emptyVoxel"
proof -
  let ?W = "run (the (new_BrickMapWorld 2 1)) ([SetVoxel 0 0 0 9 9 9 9, Clear] @ [SetVoxel 1 0 0 1 2 3 4])"
  have i: "inBounds ?W 0 0 0" by (simp add: inBounds_def run_static new_BrickMapWorld_def)
  have n: "new_BrickMapWorld 2 1 = Some (the (new_BrickMapWorld 2 1))"
    by (simp add: new_BrickMapWorld_def)
  have c: "ta_get (coarseGrid ?W) (voxelCell ?W 0 0 0) = Some 0"
    by (simp add: eval_defs)
  have p: "\<forall>c \<in> set [SetVoxel 1 0 0 1 2 3 4]. \<not> writes c 0 0 0" by (simp add: writes_def)
  have p': "\<not> writes (SetVoxel 1 0 0 1 2 3 4) 0 0 0" by (simp add: writes_def)
  from getVoxel_unallocated_empty[OF i] n c p p' i show ?thesis by simp
qed









lemma cellOccupied_iff:
  "cellOccupied w i \<longleftrightarrow> (\<exists>x y z. inBounds w x y z \<and> voxelCell w x y z = i \<and> occupied w x y z)"
  unfolding cellOccupied_def inBounds_def by (simp add: Bex_def)

lemma allBricksOccupied_iff:
  "allBricksOccupied w \<longleftrightarrow>
     (\<forall>i < length (coarseGrid w). coarseGrid w ! i \<noteq> 0 \<longrightarrow> cellOccupied w (int i))"
  unfolding allBricksOccupied_def by auto



lemma coarseGrid_setVoxel:
  assumes "world_inv w" "inBounds w x y z"
  shows "length (coarseGrid (snd (setVoxel w x y z r g b a))) = length (coarseGrid w)"
    and "i \<noteq> nat (voxelCell w x y z) \<Longrightarrow>
         coarseGrid (snd (setVoxel w x y z r g b a)) ! i = coarseGrid w ! i"
proof -
  let ?i = "nat (voxelCell w x y z)"
  note c = voxelCell_eq[OF assms]
  have il: "?i < length (coarseGrid w)" using c(2,3) by simp
  have "length (coarseGrid (snd (setVoxel w x y z r g b a))) = length (coarseGrid w) \<and>
    (i \<noteq> ?i \<longrightarrow> coarseGrid (snd (setVoxel w x y z r g b a)) ! i = coarseGrid w ! i)"
  proof (cases "coarseGrid w ! ?i = 0")
    case True
    then show ?thesis by (simp add: setVoxel_new_cell[OF assms True])
  next
    case False
    from cell_brick(3)[OF assms(1) il False] obtain d where
      d: "map_of (bricks w) (uint (coarseGrid w ! ?i)) = Some d" by blast
    show ?thesis by (simp add: setVoxel_old_cell[OF assms False d])
  qed
  then show "length (coarseGrid (snd (setVoxel w x y z r g b a))) = length (coarseGrid w)"
    and "i \<noteq> nat (voxelCell w x y z) \<Longrightarrow>
         coarseGrid (snd (setVoxel w x y z r g b a)) ! i = coarseGrid w ! i" by simp_all
qed

lemma occupied_cong:
  assumes "coarseSize w' = coarseSize w" "brickSize w' = brickSize w" "worldSize w' = worldSize w"
    "coarseGrid w' = coarseGrid w" "bricks w' = bricks w"
  shows "allBricksOccupied w' = allBricksOccupied w"
proof -
  have g: "\<And>x y z. getVoxel w' x y z = getVoxel w x y z" using assms by (rule getVoxel_cong)
  have v: "\<And>x y z. voxelCell w' x y z = voxelCell w x y z"
    using assms(1,2) by (rule voxelCell_cong)
  show ?thesis
    unfolding allBricksOccupied_def cellOccupied_def occupied_def g v assms ..
qed

lemma allBricksOccupied_setVoxel:
  assumes inv: "world_inv w" and occ: "allBricksOccupied w" and a: "a mod 256 \<noteq> 0"
  shows "allBricksOccupied (snd (setVoxel w x y z r g b a))"
proof (cases "inBounds w x y z")
  case False
  then show ?thesis using occ by (simp add: setVoxel_outside)
next
  case inb: True
  let ?w' = "snd (setVoxel w x y z r g b a)"
  let ?i = "nat (voxelCell w x y z)"
  note c = voxelCell_eq[OF inv inb]
  have apos: "0 < a mod 256" using a pos_mod_sign[of 256 a] by linarith
  have here: "occupied ?w' x y z"
    using apos by (simp add: occupied_def getVoxel_setVoxel_same(2)[OF inv inb])
  show ?thesis
    unfolding allBricksOccupied_iff
  proof (intro allI impI)
    fix i assume il: "i < length (coarseGrid ?w')" and nz: "coarseGrid ?w' ! i \<noteq> 0"
    show "cellOccupied ?w' (int i)"
    proof (cases "i = ?i")
      case True
      have "inBounds ?w' x y z \<and> voxelCell ?w' x y z = int i \<and> occupied ?w' x y z"
        using inb here True c(2) by simp
      then show ?thesis unfolding cellOccupied_iff by blast
    next
      case False
      have "i < length (coarseGrid w)" "coarseGrid w ! i \<noteq> 0"
        using il nz coarseGrid_setVoxel[OF inv inb] False by simp_all
      with occ have "cellOccupied w (int i)" unfolding allBricksOccupied_iff by blast
      then obtain x' y' z' where q: "inBounds w x' y' z'" "voxelCell w x' y' z' = int i"
        "occupied w x' y' z'"
        unfolding cellOccupied_iff by blast
      have ne: "(x, y, z) \<noteq> (x', y', z')" using q(2) False by auto
      have "getVoxel ?w' x' y' z' = getVoxel w x' y' z'"
        using inv inb q(1) ne by (rule getVoxel_setVoxel_other)
      then have "inBounds ?w' x' y' z' \<and> voxelCell ?w' x' y' z' = int i \<and> occupied ?w' x' y' z'"
        using q by (simp add: occupied_def)
      then show ?thesis unfolding cellOccupied_iff by blast
    qed
  qed
qed

lemma allBricksOccupied_apply_call:
  assumes "world_inv w" "allBricksOccupied w" "storesOccupied c"
  shows "allBricksOccupied (apply_call w c)"
proof (cases c)
  case (SetVoxel x y z r g b a)
  then show ?thesis
    using assms by (simp add: storesOccupied_def allBricksOccupied_setVoxel)
next
  case Clear
  then show ?thesis by (simp add: allBricksOccupied_iff clear_def)
next
  case CountVoxels
  have "allBricksOccupied (countVoxels w) = allBricksOccupied w"
    by (rule occupied_cong) (simp_all add: countVoxels_def)
  then show ?thesis using assms(2) by (simp add: CountVoxels)
next
  case BuildAtlas
  have "\<And>w'. buildAtlas w = Some w' \<Longrightarrow> allBricksOccupied w' = allBricksOccupied w"
    by (rule occupied_cong) (auto simp: buildAtlas_def Let_def split: if_splits)
  then show ?thesis using assms(2) by (simp add: BuildAtlas split: option.splits)
qed

lemma allBricksOccupied_run:
  assumes "world_inv w" "allBricksOccupied w" "\<forall>c \<in> set cs. storesOccupied c"
  shows "allBricksOccupied (run w cs)"
  using assms
proof (induction cs arbitrary: w)
  case Nil
  then show ?case by (simp add: run_def)
next
  case (Cons c cs)
  have "allBricksOccupied (run (apply_call w c) cs)"
    using Cons.prems
    by (intro Cons.IH world_inv_apply_call allBricksOccupied_apply_call) simp_all
  then show ?case by (simp add: run_def)
qed

lemma allBricksOccupied_reach:
  assumes "new_BrickMapWorld cs bs = Some w0" and "cs * cs * cs < 2 ^ 32"
    and "\<forall>c \<in> set calls. storesOccupied c"
  shows "allBricksOccupied (run w0 calls)"
proof -
  have inv: "world_inv w0" using assms(1,2) by (rule world_inv_new)
  have "coarseGrid w0 = ta_new (cs * cs * cs)"
    using assms(1) by (auto simp: new_BrickMapWorld_def split: if_splits)
  then have "allBricksOccupied w0" by (simp add: allBricksOccupied_iff ta_new_def)
  with inv show ?thesis using assms(3) by (rule allBricksOccupied_run)
qed

lemma writesOccupied_stores: "writesOccupied c \<Longrightarrow> storesOccupied c"
  by (auto simp: writesOccupied_def storesOccupied_def split: call.splits)

text \<open>
  Claim C9. In a world built by the constructor and any sequence of calls in which no
  voxel is removed, that is, every \<open>setVoxel\<close> call writes an occupied record
  (\<open>0 < a \<le> 255\<close>; writing \<open>a = 0\<close> is how the repository removes a voxel), every allocated
  brick holds an occupied voxel: every non-zero coarse-grid cell has a voxel with
  \<open>a > 0\<close> in its region.
\<close>

theorem allocated_bricks_occupied:
  assumes "new_BrickMapWorld cs bs = Some w0" and "cs * cs * cs < 2 ^ 32"
    and "\<forall>c \<in> set calls. writesOccupied c"
  shows "allBricksOccupied (run w0 calls)"
  using assms(1,2)
proof (rule allBricksOccupied_reach)
  show "\<forall>c \<in> set calls. storesOccupied c" using assms(3) by (blast intro: writesOccupied_stores)
qed

theorem allocated_bricks_occupied_witness:
  "new_BrickMapWorld 2 1 = Some (the (new_BrickMapWorld 2 1)) \<and> (2::int) * 2 * 2 < 2 ^ 32 \<and>
   list_all writesOccupied
     [SetVoxel 0 0 0 1 2 3 4, Clear, SetVoxel 1 0 1 9 9 9 255, SetVoxel 1 1 1 0 0 0 1] \<and>
   allBricksOccupied (run (the (new_BrickMapWorld 2 1))
     [SetVoxel 0 0 0 1 2 3 4, Clear, SetVoxel 1 0 1 9 9 9 255, SetVoxel 1 1 1 0 0 0 1])"
proof -
  have n: "new_BrickMapWorld 2 1 = Some (the (new_BrickMapWorld 2 1))"
    by (simp add: new_BrickMapWorld_def)
  have c: "\<forall>c \<in> set [SetVoxel 0 0 0 1 2 3 4, Clear, SetVoxel 1 0 1 9 9 9 255, SetVoxel 1 1 1 0 0 0 1].
      writesOccupied c" by (simp add: writesOccupied_def)
  from allocated_bricks_occupied[OF n _ c] n c show ?thesis by (simp add: list_all_iff)
qed

section \<open>The atlas\<close>

lemma writes_spec_fold:
  fixes g :: "'z \<Rightarrow> 'a list \<Rightarrow> 'a list"
  assumes "\<And>z. z \<in> set zs \<Longrightarrow> writes_spec (g z) (H z) (Q z)"
  shows "writes_spec (fold g zs) (\<lambda>p. \<exists>z \<in> set zs. H z p) (\<lambda>p v. \<exists>z \<in> set zs. H z p \<and> Q z p v)"
  using assms
proof (induction zs rule: rev_induct)
  case Nil
  show ?case by (simp add: writes_spec_def)
next
  case (snoc z zs)
  have IH: "writes_spec (fold g zs) (\<lambda>p. \<exists>z \<in> set zs. H z p)
      (\<lambda>p v. \<exists>z \<in> set zs. H z p \<and> Q z p v)"
    using snoc.prems by (intro snoc.IH) simp
  have Z: "writes_spec (g z) (H z) (Q z)" using snoc.prems by simp
  show ?case
    unfolding writes_spec_def
  proof (intro allI conjI impI)
    fix xs :: "'a list"
    show "length (fold g (zs @ [z]) xs) = length xs"
      using IH Z by (simp add: writes_spec_def)
  next
    fix xs :: "'a list" and p
    assume h: "0 \<le> p \<and> p < int (length xs) \<and> (\<exists>z \<in> set (zs @ [z]). H z p)"
    let ?ys = "fold g zs xs"
    have len: "length ?ys = length xs" using IH by (simp add: writes_spec_def)
    show "\<exists>v. (\<exists>z \<in> set (zs @ [z]). H z p \<and> Q z p v) \<and> ta_get (fold g (zs @ [z]) xs) p = Some v"
    proof (cases "H z p")
      case True
      with Z h len obtain v where "Q z p v" "ta_get (g z ?ys) p = Some v"
        unfolding writes_spec_def by (metis)
      with True show ?thesis by auto
    next
      case False
      with Z have e: "ta_get (g z ?ys) p = ta_get ?ys p" unfolding writes_spec_def by blast
      from False h have "\<exists>z \<in> set zs. H z p" by auto
      with IH h obtain v where "\<exists>z \<in> set zs. H z p \<and> Q z p v" "ta_get ?ys p = Some v"
        unfolding writes_spec_def by (metis (mono_tags, lifting))
      with e show ?thesis by auto
    qed
  next
    fix xs :: "'a list" and p
    assume h: "\<not> (\<exists>z \<in> set (zs @ [z]). H z p)"
    let ?ys = "fold g zs xs"
    from h Z have "ta_get (g z ?ys) p = ta_get ?ys p" unfolding writes_spec_def by auto
    moreover from h IH have "ta_get ?ys p = ta_get xs p" unfolding writes_spec_def by auto
    ultimately show "ta_get (fold g (zs @ [z]) xs) p = ta_get xs p" by simp
  qed
qed




lemma ta_get_set4:
  "ta_get (ta_set (ta_set (ta_set (ta_set xs i v0) (i + 1) v1) (i + 2) v2) (i + 3) v3) p =
    (if 0 \<le> p \<and> p < int (length xs) then
       (if p = i then Some v0 else if p = i + 1 then Some v1
        else if p = i + 2 then Some v2 else if p = i + 3 then Some v3
        else ta_get xs p)
     else None)"
  unfolding ta_get_set length_ta_set
  by (auto simp: ta_get_def)

lemma div4_cases:
  fixes p t :: int
  shows "p div 4 = t \<longleftrightarrow> p = t * 4 \<or> p = t * 4 + 1 \<or> p = t * 4 + 2 \<or> p = t * 4 + 3"
  by presburger

lemma write4_spec:
  fixes t :: int
  shows "writes_spec
     (\<lambda>xs. ta_set (ta_set (ta_set (ta_set xs (t * 4) (f (s * 4))) (t * 4 + 1) (f (s * 4 + 1)))
              (t * 4 + 2) (f (s * 4 + 2))) (t * 4 + 3) (f (s * 4 + 3)))
     (\<lambda>p. p div 4 = t) (\<lambda>p v. v = f (s * 4 + p mod 4))"
  unfolding writes_spec_def ta_get_set4 length_ta_set div4_cases
  by (auto simp: ta_get_def)

lemma copyVoxel_spec:
  "writes_spec (copyVoxel bs avs d ax ay az lz ly lx)
     (\<lambda>p. p div 4 = (ax * bs + lx) + (ay * bs + ly) * avs + (az * bs + lz) * avs * avs)
     (\<lambda>p v. v = ta_read d ((lx + ly * bs + lz * bs * bs) * 4 + p mod 4))"
proof -
  have "copyVoxel bs avs d ax ay az lz ly lx =
    (\<lambda>xs. ta_set (ta_set (ta_set (ta_set xs
       (((ax * bs + lx) + (ay * bs + ly) * avs + (az * bs + lz) * avs * avs) * 4)
          (ta_read d ((lx + ly * bs + lz * bs * bs) * 4)))
       (((ax * bs + lx) + (ay * bs + ly) * avs + (az * bs + lz) * avs * avs) * 4 + 1)
          (ta_read d ((lx + ly * bs + lz * bs * bs) * 4 + 1)))
       (((ax * bs + lx) + (ay * bs + ly) * avs + (az * bs + lz) * avs * avs) * 4 + 2)
          (ta_read d ((lx + ly * bs + lz * bs * bs) * 4 + 2)))
       (((ax * bs + lx) + (ay * bs + ly) * avs + (az * bs + lz) * avs * avs) * 4 + 3)
          (ta_read d ((lx + ly * bs + lz * bs * bs) * 4 + 3)))"
    unfolding copyVoxel_def Let_def by (rule ext) (rule refl)
  then show ?thesis by (simp only: write4_spec)
qed


lemma writes_spec_weaken:
  assumes "writes_spec f H Q" "\<And>p. H' p = H p" "\<And>p v. Q p v \<Longrightarrow> Q' p v"
  shows "writes_spec f H' Q'"
  using assms unfolding writes_spec_def by (metis (no_types, lifting))

lemma copyBrick_spec:
  "writes_spec (copyBrick bs as avs (k, d))
     (\<lambda>p. \<exists>lx ly lz. inBrick bs lx ly lz \<and> p div 4 = texel bs as avs k lx ly lz)
     (\<lambda>p v. \<exists>lx ly lz. inBrick bs lx ly lz \<and> p div 4 = texel bs as avs k lx ly lz \<and>
        v = ta_read d ((lx + ly * bs + lz * bs * bs) * 4 + p mod 4))"
proof -
  define ax where "ax = js_rem (k - 1) as"
  define ay where "ay = js_rem (js_floor_div (k - 1) as) as"
  define az where "az = js_floor_div (k - 1) (as * as)"
  define T where "T = (\<lambda>lz ly lx. texel bs as avs k lx ly lz)"
  define S where "S = (\<lambda>lz ly lx. (lx + ly * bs + lz * bs * bs) * 4)"
  have cb: "copyBrick bs as avs (k, d) =
    fold (\<lambda>lz. fold (\<lambda>ly. fold (copyVoxel bs avs d ax ay az lz ly) [0..bs - 1]) [0..bs - 1]) [0..bs - 1]"
    by (rule ext) (simp add: copyBrick_def ax_def ay_def az_def Let_def)
  have cv: "\<And>lz ly lx. writes_spec (copyVoxel bs avs d ax ay az lz ly lx)
     (\<lambda>p. p div 4 = T lz ly lx) (\<lambda>p v. v = ta_read d (S lz ly lx + p mod 4))"
    using copyVoxel_spec[of bs avs d ax ay az]
    by (simp add: T_def S_def texel_def ax_def ay_def az_def Let_def)
  have mem: "\<And>l. l \<in> set [0..bs - 1] \<longleftrightarrow> 0 \<le> l \<and> l < bs" by auto
  have "writes_spec (copyBrick bs as avs (k, d))
     (\<lambda>p. \<exists>lx ly lz. inBrick bs lx ly lz \<and> p div 4 = T lz ly lx)
     (\<lambda>p v. \<exists>lx ly lz. inBrick bs lx ly lz \<and> p div 4 = T lz ly lx \<and>
        v = ta_read d (S lz ly lx + p mod 4))"
    unfolding cb
  proof (rule writes_spec_weaken[OF writes_spec_fold[OF writes_spec_fold[OF writes_spec_fold[OF cv]]]])
    fix p
    show "(\<exists>lx ly lz. inBrick bs lx ly lz \<and> p div 4 = T lz ly lx) =
      (\<exists>z\<in>set [0..bs - 1]. \<exists>za\<in>set [0..bs - 1]. \<exists>zb\<in>set [0..bs - 1]. p div 4 = T z za zb)"
      unfolding inBrick_def Bex_def mem by blast
  next
    fix p v
    assume "\<exists>z\<in>set [0..bs - 1]. (\<exists>za\<in>set [0..bs - 1]. \<exists>zb\<in>set [0..bs - 1]. p div 4 = T z za zb) \<and>
       (\<exists>za\<in>set [0..bs - 1]. (\<exists>zb\<in>set [0..bs - 1]. p div 4 = T z za zb) \<and>
          (\<exists>zb\<in>set [0..bs - 1]. p div 4 = T z za zb \<and> v = ta_read d (S z za zb + p mod 4)))"
    then show "\<exists>lx ly lz. inBrick bs lx ly lz \<and> p div 4 = T lz ly lx \<and>
        v = ta_read d (S lz ly lx + p mod 4)"
      unfolding inBrick_def Bex_def mem by blast
  qed
  then show ?thesis by (simp only: T_def S_def)
qed

lemma buildAtlas_spec:
  "writes_spec (fold (copyBrick bs as avs) ents)
     (\<lambda>p. \<exists>e \<in> set ents. \<exists>lx ly lz. inBrick bs lx ly lz \<and> p div 4 = texel bs as avs (fst e) lx ly lz)
     (\<lambda>p v. \<exists>e \<in> set ents. \<exists>lx ly lz. inBrick bs lx ly lz \<and> p div 4 = texel bs as avs (fst e) lx ly lz \<and>
        v = ta_read (snd e) ((lx + ly * bs + lz * bs * bs) * 4 + p mod 4))"
proof -
  have "\<And>z. z \<in> set ents \<Longrightarrow> writes_spec (copyBrick bs as avs z)
     (\<lambda>p. \<exists>lx ly lz. inBrick bs lx ly lz \<and> p div 4 = texel bs as avs (fst z) lx ly lz)
     (\<lambda>p v. \<exists>lx ly lz. inBrick bs lx ly lz \<and> p div 4 = texel bs as avs (fst z) lx ly lz \<and>
        v = ta_read (snd z) ((lx + ly * bs + lz * bs * bs) * 4 + p mod 4))"
  proof -
    fix z :: "int \<times> 8 word list"
    show "writes_spec (copyBrick bs as avs z)
     (\<lambda>p. \<exists>lx ly lz. inBrick bs lx ly lz \<and> p div 4 = texel bs as avs (fst z) lx ly lz)
     (\<lambda>p v. \<exists>lx ly lz. inBrick bs lx ly lz \<and> p div 4 = texel bs as avs (fst z) lx ly lz \<and>
        v = ta_read (snd z) ((lx + ly * bs + lz * bs * bs) * 4 + p mod 4))"
      using copyBrick_spec[of bs as avs "fst z" "snd z"] by simp
  qed
  from writes_spec_fold[of ents "copyBrick bs as avs", OF this]
  show ?thesis
    by (rule writes_spec_weaken) blast+
qed


lemma atlas_cell_bounds:
  fixes k as :: int
  assumes "1 \<le> k" "0 < as"
  shows "js_rem (k - 1) as = (k - 1) mod as"
    and "js_rem (js_floor_div (k - 1) as) as = ((k - 1) div as) mod as"
    and "js_floor_div (k - 1) (as * as) = (k - 1) div as div as"
    and "0 \<le> (k - 1) div as div as"
    and "k \<le> as * as * as \<Longrightarrow> (k - 1) div as div as < as"
    and "as * as * as < k \<Longrightarrow> as \<le> (k - 1) div as div as"
proof -
  have i: "0 \<le> k - 1" using assms by simp
  have d: "0 \<le> (k - 1) div as" using i assms by (simp add: div_int_pos_iff)
  show "js_rem (k - 1) as = (k - 1) mod as"
    using i assms by (cases "k - 1 = 0") (simp_all add: js_rem_def)
  show "js_rem (js_floor_div (k - 1) as) as = ((k - 1) div as) mod as"
    using d assms by (cases "(k - 1) div as = 0") (simp_all add: js_rem_def js_floor_div_def)
  show "js_floor_div (k - 1) (as * as) = (k - 1) div as div as"
    using assms by (simp add: js_floor_div_def zdiv_zmult2_eq)
  show "0 \<le> (k - 1) div as div as" using d assms by (simp add: div_int_pos_iff)
  { assume "k \<le> as * as * as"
    then have lt: "k - 1 < (as * as) * as" by simp
    have "(k - 1) div as < as * as"
      using i lt assms(2) by (rule div_mod_bounds(2))
    with d show "(k - 1) div as div as < as"
      using assms(2) by (rule div_mod_bounds(2)) }
  { assume "as * as * as < k"
    then have "as * as * as \<le> k - 1" by simp
    then have "(as * as * as) div as \<le> (k - 1) div as" using assms by (intro zdiv_mono1) simp_all
    then have "as * as \<le> (k - 1) div as" using assms by simp
    then have "(as * as) div as \<le> (k - 1) div as div as" using assms by (intro zdiv_mono1) simp_all
    then show "as \<le> (k - 1) div as div as" using assms by simp }
qed

lemma texel_eq:
  assumes "1 \<le> k" "0 < as"
  shows "texel bs as avs k lx ly lz =
     (((k - 1) mod as) * bs + lx) + ((((k - 1) div as) mod as) * bs + ly) * avs
       + (((k - 1) div as div as) * bs + lz) * avs * avs"
  by (simp add: texel_def Let_def atlas_cell_bounds(1-3)[OF assms])

lemma split_bounds:
  fixes q l bs n :: int
  assumes "0 \<le> q" "q < n" "0 \<le> l" "l < bs"
  shows "0 \<le> q * bs + l" and "q * bs + l < n * bs"
proof -
  have bs: "0 < bs" using assms by linarith
  show "0 \<le> q * bs + l" using assms bs by simp
  have "q * bs \<le> (n - 1) * bs" using assms bs by (intro mult_right_mono) simp_all
  then show "q * bs + l < n * bs" using assms by (simp add: algebra_simps)
qed

lemma split_inj:
  fixes q l bs :: int
  assumes "0 \<le> l" "l < bs" "0 \<le> l'" "l' < bs" "q * bs + l = q' * bs + l'"
  shows "q = q' \<and> l = l'"
proof -
  have "(l + bs * q) mod bs = l" "(l' + bs * q') mod bs = l'" using assms by simp_all
  moreover have e: "l + bs * q = l' + bs * q'" using assms(5) by (simp add: algebra_simps)
  ultimately have "l = l'" by simp
  with e assms show ?thesis by simp
qed

lemma texel_bounds:
  assumes "1 \<le> k" "k \<le> as * as * as" "0 < as" "0 < bs" "inBrick bs lx ly lz"
  shows "0 \<le> texel bs as (as * bs) k lx ly lz"
    and "texel bs as (as * bs) k lx ly lz < (as * bs) * (as * bs) * (as * bs)"
proof -
  note c = atlas_cell_bounds[OF assms(1,3)]
  have l: "0 \<le> lx" "lx < bs" "0 \<le> ly" "ly < bs" "0 \<le> lz" "lz < bs"
    using assms(5) by (simp_all add: inBrick_def)
  have x: "0 \<le> (k - 1) mod as" "(k - 1) mod as < as" using assms(3) by simp_all
  have y: "0 \<le> ((k - 1) div as) mod as" "((k - 1) div as) mod as < as" using assms(3) by simp_all
  have z: "0 \<le> (k - 1) div as div as" "(k - 1) div as div as < as"
    using c(4) c(5)[OF assms(2)] by simp_all
  note b = split_bounds[OF x l(1,2)] split_bounds[OF y l(3,4)] split_bounds[OF z l(5,6)]
  from radix3_bounds[OF b]
  show "0 \<le> texel bs as (as * bs) k lx ly lz"
    and "texel bs as (as * bs) k lx ly lz < (as * bs) * (as * bs) * (as * bs)"
    unfolding texel_eq[OF assms(1,3)] by simp_all
qed

lemma texel_overflow:
  assumes "as * as * as < k" "0 < as" "0 < bs" "inBrick bs lx ly lz"
  shows "(as * bs) * (as * bs) * (as * bs) \<le> texel bs as (as * bs) k lx ly lz"
proof -
  have k: "1 \<le> k"
  proof -
    have "0 < as * as * as" using assms(2) by simp
    with assms(1) show ?thesis by linarith
  qed
  note c = atlas_cell_bounds[OF k assms(2)]
  have l: "0 \<le> lx" "lx < bs" "0 \<le> ly" "ly < bs" "0 \<le> lz" "lz < bs"
    using assms(4) by (simp_all add: inBrick_def)
  have x: "0 \<le> (k - 1) mod as" using assms(2) by simp
  have y: "0 \<le> ((k - 1) div as) mod as" using assms(2) by simp
  have z: "as \<le> (k - 1) div as div as" using c(6)[OF assms(1)] .
  define V where "V = as * bs"
  have V: "0 < V" using assms(2,3) by (simp add: V_def)
  have X: "0 \<le> ((k - 1) mod as) * bs + lx" using x l assms(3) by simp
  have Y: "0 \<le> (((k - 1) div as) mod as) * bs + ly" using y l assms(3) by simp
  have "as * bs \<le> ((k - 1) div as div as) * bs"
    using z assms(3) by (intro mult_right_mono) simp_all
  then have Z: "V \<le> ((k - 1) div as div as) * bs + lz" unfolding V_def using l(5) by linarith
  have "V * (V * V) \<le> (((k - 1) div as div as) * bs + lz) * (V * V)"
    using Z V by (intro mult_right_mono) simp_all
  moreover have "0 \<le> ((((k - 1) div as) mod as) * bs + ly) * V" using Y V by simp
  ultimately have "V * V * V \<le> (((k - 1) mod as) * bs + lx) + ((((k - 1) div as) mod as) * bs + ly) * V
       + (((k - 1) div as div as) * bs + lz) * V * V"
    using X by (simp add: mult.assoc)
  then show ?thesis unfolding texel_eq[OF k assms(2)] V_def .
qed

lemma texel_inj:
  assumes "1 \<le> k" "1 \<le> k'" "0 < as" "0 < bs" "inBrick bs lx ly lz" "inBrick bs lx' ly' lz'"
    and eq: "texel bs as (as * bs) k lx ly lz = texel bs as (as * bs) k' lx' ly' lz'"
  shows "k = k' \<and> lx = lx' \<and> ly = ly' \<and> lz = lz'"
proof -
  have l: "0 \<le> lx" "lx < bs" "0 \<le> ly" "ly < bs" "0 \<le> lz" "lz < bs"
    using assms(5) by (simp_all add: inBrick_def)
  have l': "0 \<le> lx'" "lx' < bs" "0 \<le> ly'" "ly' < bs" "0 \<le> lz'" "lz' < bs"
    using assms(6) by (simp_all add: inBrick_def)
  have x: "0 \<le> (k - 1) mod as" "(k - 1) mod as < as" using assms(3) by simp_all
  have y: "0 \<le> ((k - 1) div as) mod as" "((k - 1) div as) mod as < as" using assms(3) by simp_all
  have x': "0 \<le> (k' - 1) mod as" "(k' - 1) mod as < as" using assms(3) by simp_all
  have y': "0 \<le> ((k' - 1) div as) mod as" "((k' - 1) div as) mod as < as" using assms(3) by simp_all
  note b = split_bounds[OF x l(1,2)] split_bounds[OF y l(3,4)]
    split_bounds[OF x' l'(1,2)] split_bounds[OF y' l'(3,4)]
  from radix3_inj[OF b eq[unfolded texel_eq[OF assms(1,3)] texel_eq[OF assms(2,3)]]]
  have X: "(k - 1) mod as * bs + lx = (k' - 1) mod as * bs + lx'"
    and Y: "(k - 1) div as mod as * bs + ly = (k' - 1) div as mod as * bs + ly'"
    and Z: "(k - 1) div as div as * bs + lz = (k' - 1) div as div as * bs + lz'"
    by simp_all
  from split_inj[OF l(1,2) l'(1,2) X] split_inj[OF l(3,4) l'(3,4) Y] split_inj[OF l(5,6) l'(5,6) Z]
  have q: "(k - 1) mod as = (k' - 1) mod as" "(k - 1) div as mod as = (k' - 1) div as mod as"
    "(k - 1) div as div as = (k' - 1) div as div as" and ll: "lx = lx'" "ly = ly'" "lz = lz'"
    by simp_all
  from q(2,3) have "(k - 1) div as = (k' - 1) div as" by (metis mult_div_mod_eq)
  with q(1) have "k - 1 = k' - 1" by (metis mult_div_mod_eq)
  with ll show ?thesis by simp
qed

lemma atlas_length:
  "length (fold (copyBrick bs as avs) ents atlas) = length atlas"
  using buildAtlas_spec[of bs as avs ents] unfolding writes_spec_def by blast

lemma atlas_lookup:
  assumes dist: "distinct (map fst ents)" and pos: "\<forall>e \<in> set ents. 1 \<le> fst e"
    and e: "(k, d) \<in> set ents" and cap: "k \<le> as * as * as" and as: "0 < as" and bs: "0 < bs"
    and l: "inBrick bs lx ly lz" and c: "0 \<le> c" "c < 4"
  shows "ta_get (fold (copyBrick bs as (as * bs)) ents (ta_new ((as * bs) * (as * bs) * (as * bs) * 4)))
           (texel bs as (as * bs) k lx ly lz * 4 + c)
         = Some (ta_read d ((lx + ly * bs + lz * bs * bs) * 4 + c))"
proof -
  let ?V = "as * bs"
  let ?T = "texel bs as ?V k lx ly lz"
  let ?p = "?T * 4 + c"
  let ?a0 = "ta_new (?V * ?V * ?V * 4) :: 8 word list"
  have k: "1 \<le> k" using pos e by force
  note tb = texel_bounds[OF k cap as bs l]
  have pd: "?p div 4 = ?T" and pm: "?p mod 4 = c" using c by simp_all
  have V3: "0 \<le> ?V * ?V * ?V" using tb by linarith
  have inr: "0 \<le> ?p \<and> ?p < int (length ?a0)" using tb c V3 by simp
  have H: "\<exists>e \<in> set ents. \<exists>lx' ly' lz'. inBrick bs lx' ly' lz' \<and> ?p div 4 = texel bs as ?V (fst e) lx' ly' lz'"
    using e l pd by force
  from buildAtlas_spec[of bs as ?V ents, unfolded writes_spec_def, rule_format, of ?a0]
  have "0 \<le> ?p \<and> ?p < int (length ?a0) \<and>
        (\<exists>e \<in> set ents. \<exists>lx' ly' lz'. inBrick bs lx' ly' lz' \<and> ?p div 4 = texel bs as ?V (fst e) lx' ly' lz')
      \<longrightarrow> (\<exists>v. (\<exists>e \<in> set ents. \<exists>lx' ly' lz'. inBrick bs lx' ly' lz' \<and>
              ?p div 4 = texel bs as ?V (fst e) lx' ly' lz' \<and>
              v = ta_read (snd e) ((lx' + ly' * bs + lz' * bs * bs) * 4 + ?p mod 4)) \<and>
            ta_get (fold (copyBrick bs as ?V) ents ?a0) ?p = Some v)"
    by blast
  with inr H obtain v e' lx' ly' lz' where
    e': "e' \<in> set ents" and l': "inBrick bs lx' ly' lz'"
    and t: "?p div 4 = texel bs as ?V (fst e') lx' ly' lz'"
    and v: "v = ta_read (snd e') ((lx' + ly' * bs + lz' * bs * bs) * 4 + ?p mod 4)"
    and g: "ta_get (fold (copyBrick bs as ?V) ents ?a0) ?p = Some v"
    by blast
  have k': "1 \<le> fst e'" using pos e' by blast
  from texel_inj[OF k k' as bs l l'] t pd
  have same: "k = fst e'" "lx = lx'" "ly = ly'" "lz = lz'" by simp_all
  have "snd e' = d"
    using dist e e' same(1) by (metis eq_key_imp_eq_value prod.collapse)
  with v same pm g show ?thesis by simp
qed

lemma atlas_record:
  assumes dist: "distinct (map fst ents)" and pos: "\<forall>e \<in> set ents. 1 \<le> fst e"
    and e: "(k, d) \<in> set ents" and cap: "k \<le> as * as * as" and as: "0 < as" and bs: "0 < bs"
    and l: "inBrick bs lx ly lz" and len: "int (length d) = bs * bs * bs * 4"
  shows "readVoxel (fold (copyBrick bs as (as * bs)) ents (ta_new ((as * bs) * (as * bs) * (as * bs) * 4)))
           (texel bs as (as * bs) k lx ly lz * 4)
         = readVoxel d ((lx + ly * bs + lz * bs * bs) * 4)"
proof -
  let ?S = "(lx + ly * bs + lz * bs * bs) * 4"
  have l': "0 \<le> lx" "lx < bs" "0 \<le> ly" "ly < bs" "0 \<le> lz" "lz < bs"
    using l by (simp_all add: inBrick_def)
  from radix3_bounds[OF l'] have S: "0 \<le> ?S" "?S + 3 < int (length d)" by (simp_all add: len)
  have rd: "\<And>c. 0 \<le> c \<Longrightarrow> c < 4 \<Longrightarrow> Some (ta_read d (?S + c)) = ta_get d (?S + c)"
    using S by (simp add: ta_read_def ta_get_def)
  note lk = atlas_lookup[OF dist pos e cap as bs l]
  show ?thesis
    unfolding readVoxel_def
    using lk[of 0] lk[of 1] lk[of 2] lk[of 3] rd[of 0] rd[of 1] rd[of 2] rd[of 3]
    by simp
qed


lemma atlasVoxel_eq:
  assumes inv: "world_inv w" and inb: "inBounds w x y z"
    and nz: "coarseGrid w ! nat (voxelCell w x y z) \<noteq> 0"
    and cap: "uint (coarseGrid w ! nat (voxelCell w x y z)) \<le> atlasSize w * atlasSize w * atlasSize w"
  shows "atlasVoxel w x y z = getVoxel w x y z"
proof -
  let ?B = "brickSize w" and ?A = "atlasSize w"
  let ?i = "nat (voxelCell w x y z)"
  let ?k = "uint (coarseGrid w ! ?i)"
  let ?lx = "x mod ?B" and ?ly = "y mod ?B" and ?lz = "z mod ?B"
  note c = voxelCell_eq[OF inv inb] and sl = voxelSlot_eq[OF inv inb]
  have il: "?i < length (coarseGrid w)" using c(2,3) by simp
  have B: "0 < ?B" using inv inb by (rule inv_pos)
  have A: "0 < ?A" using world_invD(5)[OF inv] by simp
  note cb = cell_brick[OF inv il nz]
  from cb(3) obtain d where d: "map_of (bricks w) ?k = Some d" by blast
  have mem: "(?k, d) \<in> set (bricks w)" using d by (rule map_of_SomeD)
  have keys: "map fst (bricks w) = [1..brickCount w]" using inv by (rule world_invD)
  have dist: "distinct (map fst (bricks w))" unfolding keys by simp
  have pos: "\<forall>e \<in> set (bricks w). 1 \<le> fst e"
  proof
    fix e assume "e \<in> set (bricks w)"
    then have "fst e \<in> set (map fst (bricks w))" by simp
    then show "1 \<le> fst e" unfolding keys by simp
  qed
  have len: "int (length d) = ?B * ?B * ?B * 4" using inv d by (rule world_invD)
  have l: "inBrick ?B ?lx ?ly ?lz" using B by (simp add: inBrick_def)
  have ws: "worldSize w = coarseSize w * ?B" using inv by (rule world_invD)
  have rem: "js_rem x ?B = ?lx" "js_rem y ?B = ?ly" "js_rem z ?B = ?lz"
    using inb B div_mod_bounds(3)[of _ "coarseSize w" ?B] by (simp_all add: inBounds_def ws)
  have V: "0 < ?A * ?B" using A B by simp
  have "0 \<le> (?A * ?B) * (?A * ?B) * (?A * ?B)" using A B by (intro mult_nonneg_nonneg) simp_all
  then have n0: "\<not> (?A * ?B) * (?A * ?B) * (?A * ?B) * 4 < 0" by linarith
  let ?data = "fold (copyBrick ?B ?A (?A * ?B)) (bricks w) (ta_new ((?A * ?B) * (?A * ?B) * (?A * ?B) * 4))"
  have ba: "buildAtlas w = Some (w \<lparr> brickAtlasData := Some ?data \<rparr>)"
    unfolding buildAtlas_def Let_def using n0 by (simp only: if_False)
  have tg: "ta_get (coarseGrid w) (voxelCell w x y z) = Some (coarseGrid w ! ?i)"
    using c(2,3) by (simp add: ta_get_def)
  have ap: "atlasPos ?A ?k = ((?k - 1) mod ?A, ((?k - 1) div ?A) mod ?A, (?k - 1) div ?A div ?A)"
    using A by (simp add: atlasPos_def zdiv_zmult2_eq)
  have av: "atlasVoxel w x y z = Some (readVoxel ?data (texel ?B ?A (?A * ?B) ?k ?lx ?ly ?lz * 4))"
    unfolding atlasVoxel_def ba tg
    by (simp add: ap worldToLocal_def rem atlasRecord_def texel_eq[OF cb(1) A] Let_def)
  have gv: "getVoxel w x y z = Some (readVoxel d ((?lx + ?ly * ?B + ?lz * ?B * ?B) * 4))"
    using nz d by (simp add: getVoxel_unfold[OF inv inb] sl(1))
  show ?thesis
    unfolding av gv using atlas_record[OF dist pos mem cap A B l len] by simp
qed

lemma occupied_nonzero_cell:
  assumes "world_inv w" "inBounds w x y z" "occupied w x y z"
  shows "coarseGrid w ! nat (voxelCell w x y z) \<noteq> 0"
proof
  assume "coarseGrid w ! nat (voxelCell w x y z) = 0"
  then have "getVoxel w x y z = Some emptyVoxel" by (simp add: getVoxel_unfold[OF assms(1,2)])
  with assms(3) show False by (simp add: occupied_def emptyVoxel_def)
qed

text \<open>
  Claim C3, amended. In a world built by the constructor and any sequence of calls, for
  every occupied voxel whose brick index is at most \<open>A\<^sup>3\<close> (the number of brick slots of the
  atlas, \<open>A = atlasSize = 64\<close>), the buffer built by \<open>buildAtlas\<close> holds, at the atlas
  coordinate of the voxel, exactly the record that \<open>getVoxel\<close> returns for it.
\<close>

theorem atlas_fidelity_within_capacity:
  assumes "new_BrickMapWorld cs bs = Some w0" and "cs * cs * cs < 2 ^ 32"
    and "w = run w0 calls"
    and "inBounds w x y z" and "occupied w x y z"
    and "uint (coarseGrid w ! nat (voxelCell w x y z)) \<le> atlasSize w * atlasSize w * atlasSize w"
  shows "atlasVoxel w x y z = getVoxel w x y z"
proof -
  have inv: "world_inv w" unfolding assms(3) using assms(1,2) by (rule world_inv_reach)
  from inv assms(4) occupied_nonzero_cell[OF inv assms(4,5)] assms(6)
  show ?thesis by (rule atlasVoxel_eq)
qed



lemma atlasVoxel_overflow:
  assumes inv: "world_inv w" and inb: "inBounds w x y z"
    and nz: "coarseGrid w ! nat (voxelCell w x y z) \<noteq> 0"
    and cap: "atlasSize w * atlasSize w * atlasSize w < uint (coarseGrid w ! nat (voxelCell w x y z))"
  shows "atlasVoxel w x y z = Some \<lparr> red = None, green = None, blue = None, alpha = None \<rparr>"
proof -
  let ?B = "brickSize w" and ?A = "atlasSize w"
  let ?i = "nat (voxelCell w x y z)"
  let ?k = "uint (coarseGrid w ! ?i)"
  let ?lx = "x mod ?B" and ?ly = "y mod ?B" and ?lz = "z mod ?B"
  note c = voxelCell_eq[OF inv inb]
  have il: "?i < length (coarseGrid w)" using c(2,3) by simp
  have B: "0 < ?B" using inv inb by (rule inv_pos)
  have A: "0 < ?A" using world_invD(5)[OF inv] by simp
  note cb = cell_brick[OF inv il nz]
  have l: "inBrick ?B ?lx ?ly ?lz" using B by (simp add: inBrick_def)
  have ws: "worldSize w = coarseSize w * ?B" using inv by (rule world_invD)
  have rem: "js_rem x ?B = ?lx" "js_rem y ?B = ?ly" "js_rem z ?B = ?lz"
    using inb B div_mod_bounds(3)[of _ "coarseSize w" ?B] by (simp_all add: inBounds_def ws)
  have V3: "0 \<le> (?A * ?B) * (?A * ?B) * (?A * ?B)" using A B by (intro mult_nonneg_nonneg) simp_all
  then have n0: "\<not> (?A * ?B) * (?A * ?B) * (?A * ?B) * 4 < 0" by linarith
  let ?data = "fold (copyBrick ?B ?A (?A * ?B)) (bricks w) (ta_new ((?A * ?B) * (?A * ?B) * (?A * ?B) * 4))"
  have ba: "buildAtlas w = Some (w \<lparr> brickAtlasData := Some ?data \<rparr>)"
    unfolding buildAtlas_def Let_def using n0 by (simp only: if_False)
  have tg: "ta_get (coarseGrid w) (voxelCell w x y z) = Some (coarseGrid w ! ?i)"
    using c(2,3) by (simp add: ta_get_def)
  have ap: "atlasPos ?A ?k = ((?k - 1) mod ?A, ((?k - 1) div ?A) mod ?A, (?k - 1) div ?A div ?A)"
    using A by (simp add: atlasPos_def zdiv_zmult2_eq)
  let ?T = "texel ?B ?A (?A * ?B) ?k ?lx ?ly ?lz"
  have av: "atlasVoxel w x y z = Some (readVoxel ?data (?T * 4))"
    unfolding atlasVoxel_def ba tg
    by (simp add: ap worldToLocal_def rem atlasRecord_def texel_eq[OF cb(1) A] Let_def)
  have len: "int (length ?data) = (?A * ?B) * (?A * ?B) * (?A * ?B) * 4"
    unfolding atlas_length using V3 by simp
  have "(?A * ?B) * (?A * ?B) * (?A * ?B) \<le> ?T" using cap A B l by (rule texel_overflow)
  then have "int (length ?data) \<le> ?T * 4" unfolding len by simp
  then have "readVoxel ?data (?T * 4) = \<lparr> red = None, green = None, blue = None, alpha = None \<rparr>"
    by (simp add: readVoxel_def ta_get_def)
  then show ?thesis unfolding av by simp
qed

lemma fillCells_Suc:
  "fillCells cs (int (Suc n)) = fillCells cs (int n) @
     [SetVoxel (int n mod cs) ((int n div cs) mod cs) (int n div (cs * cs)) 255 0 0 255]"
proof -
  have "[0..int (Suc n) - 1] = [0..int n - 1] @ [int n]"
    using upto_rec2[of 0 "int n"] by simp
  then show ?thesis by (simp add: fillCells_def)
qed

lemma fill_coords:
  fixes m cs :: int
  assumes "0 \<le> m" "m < cs * cs * cs" "0 \<le> cs"
  shows "0 \<le> m mod cs" "m mod cs < cs" "0 \<le> (m div cs) mod cs" "(m div cs) mod cs < cs"
    "0 \<le> m div (cs * cs)" "m div (cs * cs) < cs"
    "m mod cs + ((m div cs) mod cs) * cs + (m div (cs * cs)) * cs * cs = m"
proof -
  have cs: "0 < cs" using assms by (cases "cs = 0") auto
  show "0 \<le> m mod cs" "m mod cs < cs" "0 \<le> (m div cs) mod cs" "(m div cs) mod cs < cs"
    using cs by simp_all
  have "m < cs * (cs * cs)" using assms(2) by (simp add: mult.assoc)
  with assms(1) show "0 \<le> m div (cs * cs)" "m div (cs * cs) < cs"
    using cs div_mod_bounds(1,2)[of m cs "cs * cs"] by simp_all
  have e: "m div (cs * cs) = m div cs div cs" using cs by (simp add: zdiv_zmult2_eq)
  have 1: "cs * (m div cs) + m mod cs = m" by simp
  have 2: "cs * (m div cs div cs) + (m div cs) mod cs = m div cs" by simp
  have ring: "\<And>a b c :: int. a + b * cs + c * cs * cs = cs * (cs * c + b) + a"
    by (simp add: algebra_simps)
  have "m mod cs + ((m div cs) mod cs) * cs + (m div cs div cs) * cs * cs
      = cs * (cs * (m div cs div cs) + (m div cs) mod cs) + m mod cs"
    by (rule ring)
  also have "\<dots> = m" unfolding 2 by (rule 1)
  finally show "m mod cs + ((m div cs) mod cs) * cs + (m div (cs * cs)) * cs * cs = m"
    unfolding e .
qed

lemma fill_step:
  assumes inv: "world_inv w" and bs: "brickSize w = 1" and cs: "coarseSize w = cs"
    and m: "0 \<le> m" "m < cs * cs * cs"
    and z: "coarseGrid w ! nat m = 0"
    and w': "w' = snd (setVoxel w (m mod cs) ((m div cs) mod cs) (m div (cs * cs)) 255 0 0 255)"
  shows "inBounds w (m mod cs) ((m div cs) mod cs) (m div (cs * cs))"
    and "voxelCell w (m mod cs) ((m div cs) mod cs) (m div (cs * cs)) = m"
    and "brickCount w' = brickCount w + 1"
    and "coarseGrid w' ! nat m = word_of_int (brickCount w + 1)"
    and "\<And>i. i \<noteq> nat m \<Longrightarrow> coarseGrid w' ! i = coarseGrid w ! i"
    and "length (coarseGrid w') = length (coarseGrid w)"
proof -
  note d = world_invD[OF inv]
  have c0: "0 \<le> cs" using d(1) cs by simp
  note fc = fill_coords[OF m c0]
  show inb: "inBounds w (m mod cs) ((m div cs) mod cs) (m div (cs * cs))"
    using fc by (simp add: inBounds_def d(3) bs cs)
  show vc: "voxelCell w (m mod cs) ((m div cs) mod cs) (m div (cs * cs)) = m"
    using fc(7) by (simp add: voxelCell_eq(1)[OF inv inb] bs cs)
  have z': "coarseGrid w ! nat (voxelCell w (m mod cs) ((m div cs) mod cs) (m div (cs * cs))) = 0"
    using z by (simp add: vc)
  note sv = setVoxel_new_cell[OF inv inb z', of 255 0 0 255]
  have il: "nat m < length (coarseGrid w)" using m d(4) cs by simp
  show "brickCount w' = brickCount w + 1" by (simp add: w' sv)
  show "coarseGrid w' ! nat m = word_of_int (brickCount w + 1)"
    using il by (simp add: w' sv vc d(6))
  show "\<And>i. i \<noteq> nat m \<Longrightarrow> coarseGrid w' ! i = coarseGrid w ! i"
    by (simp add: w' sv vc)
  show "length (coarseGrid w') = length (coarseGrid w)" by (simp add: w' sv)
qed

lemma fill_state:
  assumes new: "new_BrickMapWorld cs 1 = Some w0" and small: "cs * cs * cs < 2 ^ 32"
  shows "int n \<le> cs * cs * cs \<Longrightarrow>
     brickCount (run w0 (fillCells cs (int n))) = int n \<and>
     (\<forall>i. n \<le> i \<and> i < length (coarseGrid (run w0 (fillCells cs (int n)))) \<longrightarrow>
        coarseGrid (run w0 (fillCells cs (int n))) ! i = 0)"
proof (induction n)
  case 0
  have w0: "coarseGrid w0 = ta_new (cs * cs * cs)" "brickCount w0 = 0"
    using new by (auto simp: new_BrickMapWorld_def split: if_splits)
  show ?case by (simp add: fillCells_def run_def w0 ta_new_def)
next
  case (Suc n)
  let ?w = "run w0 (fillCells cs (int n))"
  have inv: "world_inv ?w" using new small by (rule world_inv_reach)
  have st: "coarseSize ?w = cs" "brickSize ?w = 1"
    using new by (auto simp: run_static new_BrickMapWorld_def split: if_splits)
  have IH: "brickCount ?w = int n"
    "\<And>i. n \<le> i \<Longrightarrow> i < length (coarseGrid ?w) \<Longrightarrow> coarseGrid ?w ! i = 0"
    using Suc by simp_all
  have m: "0 \<le> int n" "int n < cs * cs * cs"
    using Suc.prems by simp_all
  have len: "int (length (coarseGrid ?w)) = cs * cs * cs"
    using world_invD(4)[OF inv] by (simp add: st)
  have z: "coarseGrid ?w ! nat (int n) = 0" using IH(2)[of n] m len by simp
  note fs = fill_step[OF inv st(2,1) m z refl]
  have e: "run w0 (fillCells cs (int (Suc n))) =
     snd (setVoxel ?w (int n mod cs) ((int n div cs) mod cs) (int n div (cs * cs)) 255 0 0 255)"
    unfolding fillCells_Suc run_append by (simp add: run_def)
  show ?case
    unfolding e using fs(3,5,6) IH by simp
qed


lemma fill_overflow:
  assumes new: "new_BrickMapWorld cs 1 = Some w0" and small: "cs * cs * cs < 2 ^ 32"
    and n: "64 * 64 * 64 \<le> int n" "int n < cs * cs * cs"
    and w: "w = run w0 (fillCells cs (int (Suc n)))"
    and x: "x = int n mod cs" and y: "y = (int n div cs) mod cs" and z: "z = int n div (cs * cs)"
  shows "occupied w x y z" and "atlasVoxel w x y z \<noteq> getVoxel w x y z"
proof -
  let ?v = "run w0 (fillCells cs (int n))"
  have inv: "world_inv ?v" using new small by (rule world_inv_reach)
  have st: "coarseSize ?v = cs" "brickSize ?v = 1"
    using new by (auto simp: run_static new_BrickMapWorld_def split: if_splits)
  have fsn: "brickCount ?v = int n"
    "\<And>i. n \<le> i \<Longrightarrow> i < length (coarseGrid ?v) \<Longrightarrow> coarseGrid ?v ! i = 0"
    using fill_state[OF new small, of n] n(2) by simp_all
  have len: "int (length (coarseGrid ?v)) = cs * cs * cs"
    using world_invD(4)[OF inv] by (simp add: st)
  have m: "0 \<le> int n" "int n < cs * cs * cs" using n by simp_all
  have zc: "coarseGrid ?v ! nat (int n) = 0" using fsn(2)[of n] m len by simp
  have e: "w = snd (setVoxel ?v x y z 255 0 0 255)"
    unfolding w fillCells_Suc run_append x y z by (simp add: run_def)
  note fs = fill_step[OF inv st(2,1) m zc e[unfolded x y z], folded x y z]
  have inv': "world_inv w" unfolding e using inv by (rule world_inv_setVoxel)
  have inb': "inBounds w x y z" unfolding e using fs(1) by simp
  have vc': "voxelCell w x y z = int n" unfolding e using fs(2) by simp
  have gv: "getVoxel w x y z = Some \<lparr> red = Some 255, green = Some 0, blue = Some 0, alpha = Some 255 \<rparr>"
    unfolding e using getVoxel_setVoxel_same(2)[OF inv fs(1), of 255 0 0 255] by simp
  then show "occupied w x y z" by (simp add: occupied_def)
  have k: "0 < int n + 1" "int n + 1 < 2 ^ 32" using m small by simp_all
  have cell: "coarseGrid w ! nat (voxelCell w x y z) = word_of_int (int n + 1)"
    using fs(4) by (simp add: vc' fsn(1))
  have u: "uint (coarseGrid w ! nat (voxelCell w x y z)) = int n + 1"
    unfolding cell using k by (rule uint_of_index)
  have nz: "coarseGrid w ! nat (voxelCell w x y z) \<noteq> 0"
  proof
    assume "coarseGrid w ! nat (voxelCell w x y z) = 0"
    then have "uint (coarseGrid w ! nat (voxelCell w x y z)) = 0" by simp
    with u k show False by simp
  qed
  have cap: "atlasSize w * atlasSize w * atlasSize w < uint (coarseGrid w ! nat (voxelCell w x y z))"
    unfolding u world_invD(5)[OF inv'] using n(1) by simp
  from atlasVoxel_overflow[OF inv' inb' nz cap] gv
  show "atlasVoxel w x y z \<noteq> getVoxel w x y z" by simp
qed

text \<open>
  Claim C3 as stated fails beyond the capacity of the atlas: in a world of \<open>65\<^sup>3\<close> coarse
  cells and brick size 1, after one voxel has been written into each of the first
  262145 coarse cells, the voxel \<open>(64, 2, 62)\<close> is occupied, its brick has index
  \<open>262145 = 64\<^sup>3 + 1\<close>, and its atlas coordinate lies outside the buffer.
\<close>

theorem atlas_capacity_counterexample:
  "occupied (run (the (new_BrickMapWorld 65 1)) (fillCells 65 262145)) 64 2 62 \<and>
   atlasVoxel (run (the (new_BrickMapWorld 65 1)) (fillCells 65 262145)) 64 2 62
     \<noteq> getVoxel (run (the (new_BrickMapWorld 65 1)) (fillCells 65 262145)) 64 2 62"
proof -
  have n: "new_BrickMapWorld 65 1 = Some (the (new_BrickMapWorld 65 1))"
    by (simp add: new_BrickMapWorld_def)
  have s: "(65::int) * 65 * 65 < 2 ^ 32" by simp
  have i: "int (Suc 262144) = 262145" by simp
  have b: "64 * 64 * 64 \<le> int 262144" "int 262144 < 65 * 65 * 65" by simp_all
  have c: "(64::int) = int 262144 mod 65" "(2::int) = (int 262144 div 65) mod 65"
    "(62::int) = int 262144 div (65 * 65)" by simp_all
  from fill_overflow[OF n s b _ c, of "run (the (new_BrickMapWorld 65 1)) (fillCells 65 262145)"]
  show ?thesis unfolding i by simp
qed

theorem atlas_fidelity_within_capacity_witness:
  "new_BrickMapWorld 2 1 = Some (the (new_BrickMapWorld 2 1)) \<and> (2::int) * 2 * 2 < 2 ^ 32 \<and>
   inBounds (run (the (new_BrickMapWorld 2 1)) [SetVoxel 0 0 0 5 6 7 8, SetVoxel 1 0 1 10 20 30 255]) 1 0 1 \<and>
   occupied (run (the (new_BrickMapWorld 2 1)) [SetVoxel 0 0 0 5 6 7 8, SetVoxel 1 0 1 10 20 30 255]) 1 0 1 \<and>
   uint (coarseGrid (run (the (new_BrickMapWorld 2 1)) [SetVoxel 0 0 0 5 6 7 8, SetVoxel 1 0 1 10 20 30 255]) !
      nat (voxelCell (run (the (new_BrickMapWorld 2 1)) [SetVoxel 0 0 0 5 6 7 8, SetVoxel 1 0 1 10 20 30 255]) 1 0 1))
     \<le> atlasSize (run (the (new_BrickMapWorld 2 1)) [SetVoxel 0 0 0 5 6 7 8, SetVoxel 1 0 1 10 20 30 255]) *
       atlasSize (run (the (new_BrickMapWorld 2 1)) [SetVoxel 0 0 0 5 6 7 8, SetVoxel 1 0 1 10 20 30 255]) *
       atlasSize (run (the (new_BrickMapWorld 2 1)) [SetVoxel 0 0 0 5 6 7 8, SetVoxel 1 0 1 10 20 30 255]) \<and>
   atlasVoxel (run (the (new_BrickMapWorld 2 1)) [SetVoxel 0 0 0 5 6 7 8, SetVoxel 1 0 1 10 20 30 255]) 1 0 1 =
     Some \<lparr> red = Some 10, green = Some 20, blue = Some 30, alpha = Some 255 \<rparr>"
proof -
  let ?W = "run (the (new_BrickMapWorld 2 1)) [SetVoxel 0 0 0 5 6 7 8, SetVoxel 1 0 1 10 20 30 255]"
  have n: "new_BrickMapWorld 2 1 = Some (the (new_BrickMapWorld 2 1))"
    by (simp add: new_BrickMapWorld_def)
  have i: "inBounds ?W 1 0 1" by (simp add: inBounds_def run_static new_BrickMapWorld_def)
  have g: "getVoxel ?W 1 0 1 = Some \<lparr> red = Some 10, green = Some 20, blue = Some 30, alpha = Some 255 \<rparr>"
    by (simp add: getVoxel_def eval_defs update_conv')
  have o: "occupied ?W 1 0 1" by (simp add: occupied_def g)
  have c: "uint (coarseGrid ?W ! nat (voxelCell ?W 1 0 1)) \<le> atlasSize ?W * atlasSize ?W * atlasSize ?W"
    by (simp add: eval_defs)
  from atlas_fidelity_within_capacity[OF n _ refl i o c] n i o c g show ?thesis by simp
qed

section \<open>The traversal of the shader\<close>

subsection \<open>The step budget\<close>

lemma brickLoop_result:
  "brickLoop n R u bi ro rd bm st dd result mp sd side = (found, r) \<Longrightarrow>
   (found \<longrightarrow> hit r \<and> flt (R 0) (alphaOf (color r)) \<and> steps r = steps result) \<and>
   (\<not> found \<longrightarrow> r = result)"
proof (induction n arbitrary: mp sd side)
  case 0
  then show ?case by simp
next
  case (Suc n)
  show ?case
  proof (cases "flt (R 0) (snd (snd (snd (getVoxelFromBrick R u bi mp))))")
    case True
    with Suc.prems show ?thesis
      by (auto simp: brickHit_def Let_def alphaOf_def)
  next
    case False
    let ?axis = "ddaAxis sd"
    let ?sd = "ddaSide R ?axis sd dd"
    let ?mp = "ddaPos ?axis mp st"
    show ?thesis
    proof (cases "vx ?mp < 0 \<or> vx ?mp \<ge> BRICK_SIZE \<or> vy ?mp < 0 \<or> vy ?mp \<ge> BRICK_SIZE \<or>
               vz ?mp < 0 \<or> vz ?mp \<ge> BRICK_SIZE")
      case True
      with False Suc.prems show ?thesis by (simp add: Let_def)
    next
      case out: False
      with False Suc.prems have "brickLoop n R u bi ro rd bm st dd result ?mp ?sd ?axis = (found, r)"
        by (simp add: Let_def)
      then show ?thesis by (rule Suc.IH)
    qed
  qed
qed

lemma traceBrick_result:
  "traceBrick R u bi ro rd cp result = (found, r) \<Longrightarrow>
   (found \<longrightarrow> hit r \<and> flt (R 0) (alphaOf (color r)) \<and> steps r = steps result) \<and>
   (\<not> found \<longrightarrow> r = result)"
  unfolding traceBrick_def Let_def
  by (auto split: if_splits dest: brickLoop_result)

lemma coarseLoop_result:
  assumes "noHitShape R result" "\<not> hit result" "0 \<le> i" "steps result = i"
    and "coarseLoop n R u ro rd st dd i result cp sd = (r, k)"
  shows "noHitShape R r \<and> steps r = i + int k \<and> k \<le> n \<and> i + int k \<le> max i (u_maxSteps u)"
  using assms
proof (induction n arbitrary: i result cp sd r k)
  case 0
  then show ?case by auto
next
  case (Suc n)
  show ?case
  proof (cases "i \<ge> u_maxSteps u")
    case True
    with Suc.prems show ?thesis by auto
  next
    case run: False
    let ?r1 = "result \<lparr> steps := i + 1 \<rparr>"
    let ?bi = "getBrickIndex u cp"
    obtain found r2 where tb: "(if ?bi \<noteq> 0 then traceBrick R u ?bi ro rd cp ?r1 else (False, ?r1)) = (found, r2)"
      by (cases "if ?bi \<noteq> 0 then traceBrick R u ?bi ro rd cp ?r1 else (False, ?r1)")
    have r1: "noHitShape R ?r1" "\<not> hit ?r1"
      using Suc.prems(1,2) by (auto simp: noHitShape_def) (metis HitResult.surjective HitResult.update_convs(6))+
    have r2: "(found \<longrightarrow> hit r2 \<and> flt (R 0) (alphaOf (color r2)) \<and> steps r2 = i + 1) \<and>
        (\<not> found \<longrightarrow> r2 = ?r1)"
      using tb traceBrick_result[of R u ?bi ro rd cp ?r1 found r2] by (auto split: if_splits)
    show ?thesis
    proof (cases found)
      case True
      with r2 run tb Suc.prems(5) show ?thesis by (auto simp add: Let_def noHitShape_def)
    next
      case nf: False
      with r2 have e: "r2 = ?r1" by simp
      let ?axis = "ddaAxis sd"
      let ?sd = "ddaSide R ?axis sd dd"
      let ?cp = "ddaPos ?axis cp st"
      show ?thesis
      proof (cases "vx ?cp < 0 \<or> vx ?cp \<ge> f2i (vx (u_coarseGridSize u)) \<or>
                     vy ?cp < 0 \<or> vy ?cp \<ge> f2i (vy (u_coarseGridSize u)) \<or>
                     vz ?cp < 0 \<or> vz ?cp \<ge> f2i (vz (u_coarseGridSize u))")
        case True
        with run tb nf e r1 Suc.prems(5) show ?thesis by (auto simp add: Let_def)
      next
        case False
        obtain r' k' where rec: "coarseLoop n R u ro rd st dd (i + 1) ?r1 ?cp ?sd = (r', k')"
          by (cases "coarseLoop n R u ro rd st dd (i + 1) ?r1 ?cp ?sd")
        have IH: "noHitShape R r' \<and> steps r' = i + 1 + int k' \<and> k' \<le> n \<and>
            i + 1 + int k' \<le> max (i + 1) (u_maxSteps u)"
          using Suc.IH[OF r1 _ _ rec] Suc.prems(3) by simp
        have "coarseLoop (Suc n) R u ro rd st dd i result cp sd = (r', Suc k')"
          using run tb nf e False rec by (simp add: Let_def)
        with Suc.prems(5) have "r = r'" "k = Suc k'" by simp_all
        with IH run show ?thesis by auto
      qed
    qed
  qed
qed

lemma noHitShape_init: "noHitShape R (initResult R)" "\<not> hit (initResult R)" "steps (initResult R) = 0"
  by (simp_all add: noHitShape_def initResult_def)

lemma traceRayRun_result:
  assumes "traceRayRun R u origin direction = (r, k)"
  shows "noHitShape R r \<and> steps r = int k \<and> k \<le> 512 \<and> int k \<le> max 0 (u_maxSteps u)"
proof (cases "flt (snd (intersectAABB R origin direction (splat (R 0)) (getWorldSize R u)))
                  (fst (intersectAABB R origin direction (splat (R 0)) (getWorldSize R u))) \<or>
              flt (snd (intersectAABB R origin direction (splat (R 0)) (getWorldSize R u))) (R 0)")
  case True
  with assms have "r = initResult R" "k = 0" by (auto simp: traceRayRun_def Let_def)
  then show ?thesis by (simp add: noHitShape_init)
next
  case False
  with assms obtain st dd cp sd where
    "coarseLoop 512 R u origin direction st dd 0 (initResult R) cp sd = (r, k)"
    by (auto simp: traceRayRun_def Let_def)
  from coarseLoop_result[OF noHitShape_init(1,2) _ noHitShape_init(3) this]
  show ?thesis by simp
qed

text \<open>
  Claim C8. \<open>traceRay\<close> is a total function: it returns a result for every rounding, every
  scene, every ray and every \<open>u_maxSteps\<close>. The body of its coarse loop runs at most
  \<open>min(u_maxSteps, 512)\<close> times (no time when \<open>u_maxSteps\<close> is negative), and the step count
  of the result is the number of times it ran. A result without a hit is the initial
  result (\<open>hit = false\<close>) with that step count and nothing else changed; a result with a
  hit carries a voxel of positive alpha.
\<close>

theorem traceRay_step_budget:
  "int (coarseIterations R u origin direction) \<le> min (max 0 (u_maxSteps u)) 512 \<and>
   steps (traceRay R u origin direction) = int (coarseIterations R u origin direction) \<and>
   (if hit (traceRay R u origin direction)
    then flt (R 0) (alphaOf (color (traceRay R u origin direction)))
    else traceRay R u origin direction =
           (initResult R) \<lparr> steps := int (coarseIterations R u origin direction) \<rparr>)"
proof -
  obtain r k where rk: "traceRayRun R u origin direction = (r, k)"
    by (cases "traceRayRun R u origin direction")
  from traceRayRun_result[OF rk]
  show ?thesis
    by (auto simp add: traceRay_def coarseIterations_def rk noHitShape_def)
qed

lemma empty_run:
  "traceRayRun exact (emptyScene 2) (Fin (- 1), Fin 1, Fin 1) (Fin 1, Fin 0, Fin 0) =
     ((initResult exact) \<lparr> steps := 2 \<rparr>, 2)"
  "traceRayRun exact (emptyScene 256) (Fin (- 1), Fin 1, Fin 1) (Fin 1, Fin 0, Fin 0) =
     ((initResult exact) \<lparr> steps := 4 \<rparr>, 4)"
  "traceRayRun exact (emptyScene 256) (Fin (- 1), Fin 1, Fin 1) (Fin (- 1), Fin 0, Fin 0) =
     (initResult exact, 0)"
  by code_simp+

theorem traceRay_step_budget_witness:
  "coarseIterations exact (emptyScene 2) (Fin (- 1), Fin 1, Fin 1) (Fin 1, Fin 0, Fin 0) = 2 \<and>
   traceRay exact (emptyScene 2) (Fin (- 1), Fin 1, Fin 1) (Fin 1, Fin 0, Fin 0) =
     (initResult exact) \<lparr> steps := 2 \<rparr> \<and>
   \<not> hit (traceRay exact (emptyScene 2) (Fin (- 1), Fin 1, Fin 1) (Fin 1, Fin 0, Fin 0))"
  using traceRay_step_budget[of exact "emptyScene 2" "(Fin (- 1), Fin 1, Fin 1)" "(Fin 1, Fin 0, Fin 0)"]
  by (simp add: traceRay_def coarseIterations_def empty_run initResult_def)

subsection \<open>One voxel, one ray\<close>





















subsection \<open>Rays along an axis\<close>



















end
